theory Spec2Isabelle
  imports Main "HOL-Library.Word" "HOL-Library.Log_Nat"
begin

unbundle bit_operations_syntax

section \<open>JavaScript values and the object store\<close>

text \<open>
  The library is TypeScript. Its sizes, dimensions and codes are JavaScript numbers; the
  model keeps the integer-valued ones (exact below \<open>2 ^ 53\<close>) and \<open>NaN\<close>, which is what
  arithmetic on \<open>undefined\<close> yields. The bitwise operators coerce their operands to signed
  32-bit integers first (\<open>ToInt32\<close>), which is written out in \<open>to_int32\<close>.
\<close>

type_synonym u8 = "8 word"
type_synonym addr = nat

datatype jsnum = Num int | NaN

text \<open>\<open>RangeError\<close> and \<open>TypeError\<close> are the built-in errors, \<open>CacheExhausted\<close> is the
  \<open>Error\<close> the pool throws. \<open>Unmodelled\<close> is not an error of the program: it marks an element
  access through a typed array that is not a byte array, which the model does not follow.\<close>

datatype error = RangeError | TypeError | CacheExhausted | Unmodelled

datatype 'a outcome = Returns 'a | Throws error

definition to_int32 :: "int \<Rightarrow> int" where
  "to_int32 x = (x + 2 ^ 31) mod 2 ^ 32 - 2 ^ 31"

fun js_to_int32 :: "jsnum \<Rightarrow> int" where
  "js_to_int32 (Num x) = to_int32 x"
| "js_to_int32 NaN = 0"

fun js_add :: "jsnum \<Rightarrow> jsnum \<Rightarrow> jsnum" where
  "js_add (Num a) (Num b) = Num (a + b)"
| "js_add _ _ = NaN"

fun js_mul :: "jsnum \<Rightarrow> jsnum \<Rightarrow> jsnum" where
  "js_mul (Num a) (Num b) = Num (a * b)"
| "js_mul _ _ = NaN"

text \<open>\<open>a > b\<close>: every comparison with \<open>NaN\<close> is false.\<close>

fun js_gt :: "jsnum \<Rightarrow> jsnum \<Rightarrow> bool" where
  "js_gt (Num a) (Num b) = (b < a)"
| "js_gt _ _ = False"

text \<open>\<open>a & b\<close> for a number \<open>a\<close> and an integer literal \<open>b\<close>.\<close>

definition js_and :: "jsnum \<Rightarrow> int \<Rightarrow> int" where
  "js_and a b = to_int32 (js_to_int32 a AND to_int32 b)"

datatype view_kind = U8view | I32view | F32view | F64view

text \<open>
  A typed array is a view over a whole \<open>ArrayBuffer\<close>: its kind and the buffer it views.
  All four views of one \<open>Data\<close> alias the same bytes.
\<close>

record typed_array =
  ta_kind :: view_kind
  ta_buffer :: addr

text \<open>\<open>core/data.ts\<close>: class \<open>Data\<close>.\<close>

record Data =
  d_size :: int
  d_buffer :: addr
  d_u8 :: typed_array
  d_i32 :: typed_array
  d_f32 :: typed_array
  d_f64 :: typed_array

text \<open>\<open>core/matrix.ts\<close>: class \<open>Matrix\<close>. \<open>buffer\<close> and \<open>data\<close> are declared
  without initialiser, so they are \<open>undefined\<close> (\<open>None\<close>) until assigned.\<close>

record Matrix =
  m_cols :: int
  m_rows :: int
  m_type :: int
  m_channels :: int
  m_buffer :: "addr option"
  m_data :: "typed_array option"

text \<open>\<open>memory/pool.ts\<close>: class \<open>PoolNode\<close>.\<close>

record PoolNode =
  n_next :: "addr option"
  n_data :: addr
  n_size :: int

text \<open>
  The store: every object lives at the address that is its index; a \<open>new\<close> appends.
  \<open>abufs\<close> holds the bytes of each \<open>ArrayBuffer\<close>.
\<close>

record heap =
  abufs :: "u8 list list"
  datas :: "Data list"
  mats :: "Matrix list"
  nodes :: "PoolNode list"

definition empty_heap :: heap where
  "empty_heap = \<lparr>abufs = [], datas = [], mats = [], nodes = []\<rparr>"

definition lookup :: "'a list \<Rightarrow> addr \<Rightarrow> 'a option" where
  "lookup xs a = (if a < length xs then Some (xs ! a) else None)"

section \<open>Data: the aligned buffer\<close>

text \<open>
  \<open>new Int32Array(buffer)\<close>, \<open>new Float32Array(buffer)\<close> and \<open>new Float64Array(buffer)\<close>
  throw a \<open>RangeError\<close> when the buffer's byte length is not a multiple of the element size.
\<close>

definition view_elem_size :: "view_kind \<Rightarrow> nat" where
  "view_elem_size k = (case k of U8view \<Rightarrow> 1 | I32view \<Rightarrow> 4 | F32view \<Rightarrow> 4 | F64view \<Rightarrow> 8)"

definition new_typed_array :: "view_kind \<Rightarrow> addr \<Rightarrow> heap \<Rightarrow> typed_array outcome" where
  "new_typed_array k ab h =
     (case lookup (abufs h) ab of
        None \<Rightarrow> Throws TypeError
      | Some bytes \<Rightarrow>
          if length bytes mod view_elem_size k = 0
          then Returns \<lparr>ta_kind = k, ta_buffer = ab\<rparr>
          else Throws RangeError)"

text \<open>\<open>new ArrayBuffer(n)\<close>: zero-filled; a negative length is a \<open>RangeError\<close>. Memory is
  not bounded: every non-negative length is granted.\<close>

definition new_ArrayBuffer :: "int \<Rightarrow> heap \<Rightarrow> addr outcome \<times> heap" where
  "new_ArrayBuffer n h =
     (if n < 0 then (Throws RangeError, h)
      else (Returns (length (abufs h)), h\<lparr>abufs := abufs h @ [replicate (nat n) 0]\<rparr>))"

text \<open>The constructor of \<open>Data\<close>: \<open>this.size = (sizeInBytes + 7) & -8\<close>, then
  \<open>existing ?? new ArrayBuffer(this.size)\<close>, then the four views.\<close>

definition align8 :: "jsnum \<Rightarrow> int" where
  "align8 sizeInBytes = js_and (js_add sizeInBytes (Num 7)) (- 8)"

definition Data_new :: "jsnum \<Rightarrow> addr option \<Rightarrow> heap \<Rightarrow> addr outcome \<times> heap" where
  "Data_new sizeInBytes existing h =
     (let sz = align8 sizeInBytes;
          (rb, h1) = (case existing of Some ab \<Rightarrow> (Returns ab, h) | None \<Rightarrow> new_ArrayBuffer sz h)
      in case rb of
           Throws e \<Rightarrow> (Throws e, h1)
         | Returns ab \<Rightarrow>
            (case new_typed_array U8view ab h1 of
               Throws e \<Rightarrow> (Throws e, h1)
             | Returns v8 \<Rightarrow>
            (case new_typed_array I32view ab h1 of
               Throws e \<Rightarrow> (Throws e, h1)
             | Returns v32 \<Rightarrow>
            (case new_typed_array F32view ab h1 of
               Throws e \<Rightarrow> (Throws e, h1)
             | Returns vf32 \<Rightarrow>
            (case new_typed_array F64view ab h1 of
               Throws e \<Rightarrow> (Throws e, h1)
             | Returns vf64 \<Rightarrow>
                 (Returns (length (datas h1)),
                  h1\<lparr>datas := datas h1 @
                    [\<lparr>d_size = sz, d_buffer = ab, d_u8 = v8, d_i32 = v32,
                      d_f32 = vf32, d_f64 = vf64\<rparr>]\<rparr>))))))"

text \<open>The object a successful construction with aligned size \<open>sz\<close> over buffer \<open>ab\<close> stores.\<close>

definition fresh_data :: "int \<Rightarrow> addr \<Rightarrow> Data" where
  "fresh_data sz ab =
     \<lparr>d_size = sz, d_buffer = ab,
      d_u8 = \<lparr>ta_kind = U8view, ta_buffer = ab\<rparr>,
      d_i32 = \<lparr>ta_kind = I32view, ta_buffer = ab\<rparr>,
      d_f32 = \<lparr>ta_kind = F32view, ta_buffer = ab\<rparr>,
      d_f64 = \<lparr>ta_kind = F64view, ta_buffer = ab\<rparr>\<rparr>"

section \<open>Constants and decoding (\<open>constants.ts\<close>)\<close>

definition DataType_U8 :: int where "DataType_U8 = 0x0100"
definition DataType_S32 :: int where "DataType_S32 = 0x0200"
definition DataType_F32 :: int where "DataType_F32 = 0x0400"
definition DataType_S64 :: int where "DataType_S64 = 0x0800"
definition DataType_F64 :: int where "DataType_F64 = 0x1000"

definition Channels_C1 :: int where "Channels_C1 = 0x01"

definition RGBA2GRAY :: int where "RGBA2GRAY = 0"
definition RGB2GRAY :: int where "RGB2GRAY = 1"
definition BGRA2GRAY :: int where "BGRA2GRAY = 2"
definition BGR2GRAY :: int where "BGR2GRAY = 3"

definition getDataType :: "int \<Rightarrow> int" where
  "getDataType v = js_and (Num v) 0xff00"

definition getChannel :: "int \<Rightarrow> int" where
  "getChannel v = js_and (Num v) 0xff"

text \<open>The lookup \<open>DATA_TYPE_SIZE[type]\<close>: \<open>undefined\<close> (\<open>None\<close>) for a key that is not in the
  table.\<close>

definition getDataTypeSize :: "int \<Rightarrow> int option" where
  "getDataTypeSize t =
     (if t = DataType_U8 then Some 1
      else if t = DataType_S32 then Some 4
      else if t = DataType_F32 then Some 4
      else if t = DataType_S64 then Some 8
      else if t = DataType_F64 then Some 8
      else None)"

text \<open>\<open>ToNumber\<close> of a number or \<open>undefined\<close>.\<close>

fun to_number :: "int option \<Rightarrow> jsnum" where
  "to_number (Some x) = Num x"
| "to_number None = NaN"

section \<open>Matrix\<close>

definition buffer_view :: "(Data \<Rightarrow> typed_array) \<Rightarrow> Matrix \<Rightarrow> heap \<Rightarrow> typed_array option outcome" where
  "buffer_view sel m h =
     (case m_buffer m of
        None \<Rightarrow> Throws TypeError
      | Some b \<Rightarrow> (case lookup (datas h) b of
                    None \<Rightarrow> Throws TypeError
                  | Some d \<Rightarrow> Returns (Some (sel d))))"

text \<open>The \<open>switch\<close> has no \<open>default\<close>: for any other type the method returns \<open>undefined\<close>.\<close>

definition selectTypedView :: "Matrix \<Rightarrow> heap \<Rightarrow> typed_array option outcome" where
  "selectTypedView m h =
     (if m_type m = DataType_U8 then buffer_view d_u8 m h
      else if m_type m = DataType_S32 then buffer_view d_i32 m h
      else if m_type m = DataType_F32 then buffer_view d_f32 m h
      else if m_type m = DataType_S64 \<or> m_type m = DataType_F64 then buffer_view d_f64 m h
      else Returns None)"

definition Matrix_allocate :: "addr \<Rightarrow> heap \<Rightarrow> unit outcome \<times> heap" where
  "Matrix_allocate this h =
     (case lookup (mats h) this of
        None \<Rightarrow> (Throws TypeError, h)
      | Some m \<Rightarrow>
          let elements = m_cols m * m_rows m * m_channels m;
              bytes = js_mul (Num elements) (to_number (getDataTypeSize (m_type m)))
          in case Data_new bytes None h of
               (Throws e, h1) \<Rightarrow> (Throws e, h1)
             | (Returns d, h1) \<Rightarrow>
                 let m1 = m\<lparr>m_buffer := Some d\<rparr>;
                     h2 = h1\<lparr>mats := (mats h1)[this := m1]\<rparr>
                 in case selectTypedView m1 h2 of
                      Throws e \<Rightarrow> (Throws e, h2)
                    | Returns v \<Rightarrow>
                        (Returns (), h2\<lparr>mats := (mats h2)[this := m1\<lparr>m_data := v\<rparr>]\<rparr>))"

text \<open>The constructor: \<open>cols | 0\<close>, \<open>rows | 0\<close>, the decoded type and channel count, then
  either the caller's buffer or \<open>allocate()\<close>.\<close>

definition Matrix_new :: "int \<Rightarrow> int \<Rightarrow> int \<Rightarrow> addr option \<Rightarrow> heap \<Rightarrow> addr outcome \<times> heap" where
  "Matrix_new cols rows type existingBuffer h =
     (let m0 = \<lparr>m_cols = to_int32 cols, m_rows = to_int32 rows,
                m_type = getDataType type, m_channels = getChannel type,
                m_buffer = None, m_data = None\<rparr>;
          this = length (mats h);
          h0 = h\<lparr>mats := mats h @ [m0]\<rparr>
      in case existingBuffer of
           Some d \<Rightarrow>
             let m1 = m0\<lparr>m_buffer := Some d\<rparr>;
                 h1 = h0\<lparr>mats := (mats h0)[this := m1]\<rparr>
             in (case selectTypedView m1 h1 of
                   Throws e \<Rightarrow> (Throws e, h1)
                 | Returns v \<Rightarrow>
                     (Returns this, h1\<lparr>mats := (mats h1)[this := m1\<lparr>m_data := v\<rparr>]\<rparr>))
         | None \<Rightarrow>
             (case Matrix_allocate this h0 of
                (Throws e, h1) \<Rightarrow> (Throws e, h1)
              | (Returns u, h1) \<Rightarrow> (Returns this, h1)))"

text \<open>\<open>resize(cols, rows, ch = this.channels)\<close>.\<close>

definition Matrix_resize :: "addr \<Rightarrow> int \<Rightarrow> int \<Rightarrow> int option \<Rightarrow> heap \<Rightarrow> unit outcome \<times> heap" where
  "Matrix_resize this cols rows ch_arg h =
     (case lookup (mats h) this of
        None \<Rightarrow> (Throws TypeError, h)
      | Some m \<Rightarrow>
          let ch = (case ch_arg of None \<Rightarrow> m_channels m | Some c \<Rightarrow> c);
              newSize = js_mul (Num (cols * rows * ch)) (to_number (getDataTypeSize (m_type m)));
              m1 = m\<lparr>m_cols := cols, m_rows := rows, m_channels := ch\<rparr>;
              h1 = h\<lparr>mats := (mats h)[this := m1]\<rparr>
          in case m_buffer m1 of
               None \<Rightarrow> (Throws TypeError, h1)
             | Some b \<Rightarrow>
                 (case lookup (datas h1) b of
                    None \<Rightarrow> (Throws TypeError, h1)
                  | Some d \<Rightarrow>
                      if js_gt newSize (Num (d_size d)) then Matrix_allocate this h1
                      else (Returns (), h1)))"

subsection \<open>Element access through a byte view\<close>

text \<open>Reading a typed array outside its range yields \<open>undefined\<close>; a store outside its range
  is ignored. Only the byte view is modelled element by element; an access through a view of
  another kind is reported as \<open>Unmodelled\<close>.\<close>

definition ta_get_u8 :: "typed_array \<Rightarrow> int \<Rightarrow> heap \<Rightarrow> u8 option" where
  "ta_get_u8 ta i h =
     (case lookup (abufs h) (ta_buffer ta) of
        None \<Rightarrow> None
      | Some bytes \<Rightarrow> if 0 \<le> i \<and> i < int (length bytes) then Some (bytes ! nat i) else None)"

definition ta_set_u8 :: "typed_array \<Rightarrow> int \<Rightarrow> u8 \<Rightarrow> heap \<Rightarrow> heap" where
  "ta_set_u8 ta i v h =
     (case lookup (abufs h) (ta_buffer ta) of
        None \<Rightarrow> h
      | Some bytes \<Rightarrow>
          if 0 \<le> i \<and> i < int (length bytes)
          then h\<lparr>abufs := (abufs h)[ta_buffer ta := bytes[nat i := v]]\<rparr>
          else h)"

text \<open>\<open>dst[i] = src[i]\<close>; storing \<open>undefined\<close> in a byte array stores 0.\<close>

definition copy_elem :: "typed_array option \<Rightarrow> typed_array option \<Rightarrow> int \<Rightarrow> heap \<Rightarrow> unit outcome \<times> heap" where
  "copy_elem src dst i h =
     (case (src, dst) of
        (Some s, Some d) \<Rightarrow>
          if ta_kind s = U8view \<and> ta_kind d = U8view
          then (Returns (),
                ta_set_u8 d i (case ta_get_u8 s i h of None \<Rightarrow> 0 | Some v \<Rightarrow> v) h)
          else (Throws Unmodelled, h)
      | _ \<Rightarrow> (Throws TypeError, h))"

function copy_loop :: "typed_array option \<Rightarrow> typed_array option \<Rightarrow> int \<Rightarrow> int \<Rightarrow> heap \<Rightarrow> unit outcome \<times> heap" where
  "copy_loop src dst n i h =
     (if i < n then
        (case copy_elem src dst i h of
           (Throws e, h1) \<Rightarrow> (Throws e, h1)
         | (Returns u, h1) \<Rightarrow> copy_loop src dst n (i + 1) h1)
      else (Returns (), h))"
  by pat_completeness auto
termination
  by (relation "measure (\<lambda>(src, dst, n, i, h). nat (n - i))") auto

declare copy_loop.simps [simp del]

text \<open>\<open>copyTo(other)\<close>; \<open>other\<close> may be \<open>undefined\<close> (a hole of the pyramid's array).\<close>

definition Matrix_copyTo :: "addr \<Rightarrow> addr option \<Rightarrow> heap \<Rightarrow> unit outcome \<times> heap" where
  "Matrix_copyTo this other h =
     (case lookup (mats h) this of
        None \<Rightarrow> (Throws TypeError, h)
      | Some m \<Rightarrow>
          (case other of
             None \<Rightarrow> (Throws TypeError, h)
           | Some oth \<Rightarrow>
               (case lookup (mats h) oth of
                  None \<Rightarrow> (Throws TypeError, h)
                | Some om \<Rightarrow>
                    copy_loop (m_data m) (m_data om)
                      (m_cols m * m_rows m * m_channels m) 0 h)))"

section \<open>Pyramid\<close>







section \<open>The pool: \<open>PoolNode\<close> and \<open>Cache\<close>\<close>

definition PoolNode_new :: "int \<Rightarrow> heap \<Rightarrow> addr outcome \<times> heap" where
  "PoolNode_new sizeInBytes h =
     (case Data_new (Num sizeInBytes) None h of
        (Throws e, h1) \<Rightarrow> (Throws e, h1)
      | (Returns d, h1) \<Rightarrow>
          (case lookup (datas h1) d of
             None \<Rightarrow> (Throws TypeError, h1)
           | Some dd \<Rightarrow>
               (Returns (length (nodes h1)),
                h1\<lparr>nodes := nodes h1 @ [\<lparr>n_next = None, n_data = d, n_size = d_size dd\<rparr>]\<rparr>)))"

definition PoolNode_resize :: "addr \<Rightarrow> int \<Rightarrow> heap \<Rightarrow> unit outcome \<times> heap" where
  "PoolNode_resize this sizeInBytes h =
     (case Data_new (Num sizeInBytes) None h of
        (Throws e, h1) \<Rightarrow> (Throws e, h1)
      | (Returns d, h1) \<Rightarrow>
          (case (lookup (nodes h1) this, lookup (datas h1) d) of
             (Some n, Some dd) \<Rightarrow>
               (Returns (), h1\<lparr>nodes := (nodes h1)[this := n\<lparr>n_data := d, n_size := d_size dd\<rparr>]\<rparr>)
           | _ \<Rightarrow> (Throws TypeError, h1)))"

text \<open>\<open>memory/cache.ts\<close>: class \<open>Cache\<close>; \<open>null\<close> is \<open>None\<close>.\<close>

record Cache =
  c_head :: "addr option"
  c_tail :: "addr option"

definition Cache_new :: Cache where
  "Cache_new = \<lparr>c_head = None, c_tail = None\<rparr>"

text \<open>\<open>x.next = v\<close> for a node reference \<open>x\<close> that may be \<open>null\<close>.\<close>

definition set_next :: "addr option \<Rightarrow> addr option \<Rightarrow> heap \<Rightarrow> unit outcome \<times> heap" where
  "set_next x v h =
     (case x of
        None \<Rightarrow> (Throws TypeError, h)
      | Some a \<Rightarrow>
          (case lookup (nodes h) a of
             None \<Rightarrow> (Throws TypeError, h)
           | Some n \<Rightarrow> (Returns (), h\<lparr>nodes := (nodes h)[a := n\<lparr>n_next := v\<rparr>]\<rparr>)))"

function allocate_loop :: "int \<Rightarrow> int \<Rightarrow> int \<Rightarrow> Cache \<Rightarrow> heap \<Rightarrow> unit outcome \<times> Cache \<times> heap" where
  "allocate_loop capacity sizeInBytes i c h =
     (if i < capacity then
        (case PoolNode_new sizeInBytes h of
           (Throws e, h1) \<Rightarrow> (Throws e, c, h1)
         | (Returns nxt, h1) \<Rightarrow>
             (case set_next (c_tail c) (Some nxt) h1 of
                (Throws e, h2) \<Rightarrow> (Throws e, c, h2)
              | (Returns u, h2) \<Rightarrow>
                  allocate_loop capacity sizeInBytes (i + 1) (c\<lparr>c_tail := Some nxt\<rparr>) h2))
      else (Returns (), c, h))"
  by pat_completeness auto
termination
  by (relation "measure (\<lambda>(capacity, sizeInBytes, i, c, h). nat (capacity - i))") auto

declare allocate_loop.simps [simp del]

definition Cache_allocate :: "int \<Rightarrow> int \<Rightarrow> Cache \<Rightarrow> heap \<Rightarrow> unit outcome \<times> Cache \<times> heap" where
  "Cache_allocate capacity sizeInBytes c h =
     (case PoolNode_new sizeInBytes h of
        (Throws e, h1) \<Rightarrow> (Throws e, c, h1)
      | (Returns node, h1) \<Rightarrow>
          allocate_loop capacity sizeInBytes 0 (c\<lparr>c_head := Some node, c_tail := Some node\<rparr>) h1)"

definition Cache_get_buffer :: "int \<Rightarrow> Cache \<Rightarrow> heap \<Rightarrow> addr outcome \<times> Cache \<times> heap" where
  "Cache_get_buffer sizeInBytes c h =
     (case c_head c of
        None \<Rightarrow> (Throws CacheExhausted, c, h)
      | Some node \<Rightarrow>
          (case lookup (nodes h) node of
             None \<Rightarrow> (Throws TypeError, c, h)
           | Some n \<Rightarrow>
               let c1 = c\<lparr>c_head := n_next n\<rparr>
               in if n_size n < sizeInBytes then
                    (case PoolNode_resize node sizeInBytes h of
                       (Throws e, h1) \<Rightarrow> (Throws e, c1, h1)
                     | (Returns u, h1) \<Rightarrow> (Returns node, c1, h1))
                  else (Returns node, c1, h)))"

text \<open>\<open>this.tail!.next = node; this.tail = node; node.next = null\<close>.\<close>

definition Cache_put_buffer :: "addr \<Rightarrow> Cache \<Rightarrow> heap \<Rightarrow> unit outcome \<times> Cache \<times> heap" where
  "Cache_put_buffer node c h =
     (case set_next (c_tail c) (Some node) h of
        (Throws e, h1) \<Rightarrow> (Throws e, c, h1)
      | (Returns u, h1) \<Rightarrow>
          (let c1 = c\<lparr>c_tail := Some node\<rparr>
           in case set_next (Some node) None h1 of
                (Throws e, h2) \<Rightarrow> (Throws e, c1, h2)
              | (Returns u, h2) \<Rightarrow> (Returns (), c1, h2)))"

section \<open>Double-precision arithmetic of the luminance formula\<close>

text \<open>
  A finite double is represented by the rational number it denotes, \<open>NaN\<close> by \<open>None\<close>.
  Every arithmetic operation returns the exact result rounded to the nearest double, ties to
  the even significand (53 bits). The exponent range is not modelled: the values that occur
  here are 0 or lie between \<open>0.114\<close> and \<open>256\<close>, far from overflow and from subnormals.
\<close>

definition round_half_even :: "rat \<Rightarrow> int" where
  "round_half_even r =
     (let f = \<lfloor>r\<rfloor>; d = r - of_int f
      in if d < 1 / 2 then f else if 1 / 2 < d then f + 1 else if even f then f else f + 1)"

definition scale2 :: "rat \<Rightarrow> int \<Rightarrow> rat" where
  "scale2 x e = (if 0 \<le> e then x * 2 ^ nat e else x / 2 ^ nat (- e))"

text \<open>\<open>flog2 x\<close> is the binary exponent of a positive \<open>x\<close>: \<open>2 ^ flog2 x \<le> x < 2 ^ (flog2 x + 1)\<close>.\<close>

definition flog2 :: "rat \<Rightarrow> int" where
  "flog2 x =
     (let (p, q) = quotient_of x; d = bitlen p - bitlen q
      in if 1 \<le> scale2 x (- d) then d else d - 1)"

definition round_double :: "rat \<Rightarrow> rat" where
  "round_double x =
     (if x = 0 then 0
      else let e = flog2 \<bar>x\<bar> - 52
           in scale2 (of_int (round_half_even (scale2 x (- e)))) e)"

definition dmul :: "rat \<Rightarrow> rat \<Rightarrow> rat" where
  "dmul a b = round_double (a * b)"

definition dadd :: "rat \<Rightarrow> rat \<Rightarrow> rat" where
  "dadd a b = round_double (a + b)"

text \<open>The literals \<open>0.299\<close>, \<open>0.587\<close> and \<open>0.114\<close> denote the nearest doubles.\<close>

definition WR :: rat where "WR = round_double (299 / 1000)"
definition WG :: rat where "WG = round_double (587 / 1000)"
definition WB :: rat where "WB = round_double (114 / 1000)"

text \<open>\<open>WR * r + WG * g + WB * b\<close>, evaluated left to right; an operand read outside the
  source array is \<open>undefined\<close> and makes the result \<open>NaN\<close>.\<close>

fun lum :: "u8 option \<Rightarrow> u8 option \<Rightarrow> u8 option \<Rightarrow> rat option" where
  "lum (Some r) (Some g) (Some b) =
     Some (dadd (dadd (dmul WR (of_nat (unat r))) (dmul WG (of_nat (unat g))))
                (dmul WB (of_nat (unat b))))"
| "lum _ _ _ = None"

text \<open>\<open>x | 0\<close> on a double: truncation towards zero, then \<open>ToInt32\<close>; \<open>NaN | 0 = 0\<close>.\<close>

fun or0 :: "rat option \<Rightarrow> int" where
  "or0 None = 0"
| "or0 (Some q) = to_int32 (if 0 \<le> q then \<lfloor>q\<rfloor> else \<lceil>q\<rceil>)"

section \<open>Grayscale conversion (\<open>image/processing.ts\<close>)\<close>

text \<open>The source is a \<open>Uint8Array\<close> of its own, not a view of the destination's buffer.\<close>

definition src_at :: "u8 list \<Rightarrow> int \<Rightarrow> u8 option" where
  "src_at src k = (if 0 \<le> k \<and> k < int (length src) then Some (src ! nat k) else None)"

text \<open>The luminance of the pixel whose bytes start at index \<open>i\<close> of the source.\<close>

definition pixel :: "u8 list \<Rightarrow> int \<Rightarrow> int \<Rightarrow> int \<Rightarrow> int \<Rightarrow> rat option" where
  "pixel src idxR idxG idxB i =
     lum (src_at src (i + idxR)) (src_at src (i + idxG)) (src_at src (i + idxB))"

text \<open>The channel layout chosen by the two \<open>if\<close> statements: \<open>(cn, idxR, idxG, idxB)\<close>.\<close>

definition decode_layout :: "int \<Rightarrow> int \<times> int \<times> int \<times> int" where
  "decode_layout code =
     (let (idxR, idxG, idxB) =
            (if code = BGRA2GRAY \<or> code = BGR2GRAY then (2, 1, 0) else (0, 1, 2));
          cn = (if code = RGB2GRAY \<or> code = BGR2GRAY then 3 else 4)
      in (cn, idxR, idxG, idxB))"

text \<open>
  The loops record every assignment \<open>dst_u8[j] = v\<close> they make, in the order they make it,
  as the pair \<open>(j, v)\<close>; \<open>ws\<close> is the list of the stores made so far. The unrolled loop
  computes four luminances and then stores the four results.
\<close>

type_synonym store = "int \<times> int"

function unrolled_loop ::
  "u8 list \<Rightarrow> int \<Rightarrow> int \<Rightarrow> int \<Rightarrow> int \<Rightarrow> int \<Rightarrow> store list \<Rightarrow> int \<Rightarrow> int \<Rightarrow> store list \<times> int \<times> int" where
  "unrolled_loop src step idxR idxG idxB limit ws i j =
     (if j \<le> limit then
        (let g0 = pixel src idxR idxG idxB i;
             g1 = pixel src idxR idxG idxB (i + step);
             g2 = pixel src idxR idxG idxB (i + step * 2);
             g3 = pixel src idxR idxG idxB (i + step * 3)
         in unrolled_loop src step idxR idxG idxB limit
              (ws @ [(j, or0 g0), (j + 1, or0 g1), (j + 2, or0 g2), (j + 3, or0 g3)])
              (i + step * 4) (j + 4))
      else (ws, i, j))"
  by pat_completeness auto
termination
  by (relation "measure (\<lambda>(src, step, idxR, idxG, idxB, limit, ws, i, j). nat (limit - j + 1))")
     auto

declare unrolled_loop.simps [simp del]

function remainder_loop ::
  "u8 list \<Rightarrow> int \<Rightarrow> int \<Rightarrow> int \<Rightarrow> int \<Rightarrow> int \<Rightarrow> store list \<Rightarrow> int \<Rightarrow> int \<Rightarrow> store list \<times> int \<times> int" where
  "remainder_loop src step idxR idxG idxB rowEnd ws i j =
     (if j < rowEnd then
        remainder_loop src step idxR idxG idxB rowEnd
          (ws @ [(j, or0 (pixel src idxR idxG idxB i))]) (i + step) (j + 1)
      else (ws, i, j))"
  by pat_completeness auto
termination
  by (relation "measure (\<lambda>(src, step, idxR, idxG, idxB, rowEnd, ws, i, j). nat (rowEnd - j))")
     auto

declare remainder_loop.simps [simp del]

function rows_loop ::
  "u8 list \<Rightarrow> int \<Rightarrow> int \<Rightarrow> int \<Rightarrow> int \<Rightarrow> int \<Rightarrow> int \<Rightarrow> store list \<Rightarrow> int \<Rightarrow> store list" where
  "rows_loop src w h cn idxR idxG idxB ws y =
     (if y < h then
        (let rowStartSrc = y * w * cn;
             rowStartDst = y * w;
             limit = rowStartDst + (w - 4);
             (ws1, i1, j1) = unrolled_loop src cn idxR idxG idxB limit ws rowStartSrc rowStartDst;
             (ws2, i2, j2) = remainder_loop src cn idxR idxG idxB (rowStartDst + w) ws1 i1 j1
         in rows_loop src w h cn idxR idxG idxB ws2 (y + 1))
      else ws)"
  by pat_completeness auto
termination
  by (relation "measure (\<lambda>(src, w, h, cn, idxR, idxG, idxB, ws, y). nat (h - y))") auto

declare rows_loop.simps [simp del]

definition grayscale_stores :: "u8 list \<Rightarrow> int \<Rightarrow> int \<Rightarrow> int \<Rightarrow> store list" where
  "grayscale_stores src w h code =
     (let (cn, idxR, idxG, idxB) = decode_layout code
      in rows_loop src w h cn idxR idxG idxB [] 0)"

text \<open>Performing the stores on \<open>dst.data\<close>: a store through \<open>undefined\<close> is a \<open>TypeError\<close>;
  a byte array keeps the value modulo 256.\<close>

fun apply_stores :: "typed_array option \<Rightarrow> store list \<Rightarrow> heap \<Rightarrow> unit outcome \<times> heap" where
  "apply_stores v [] hp = (Returns (), hp)"
| "apply_stores v ((j, x) # ws) hp =
     (case v of
        None \<Rightarrow> (Throws TypeError, hp)
      | Some ta \<Rightarrow>
          if ta_kind ta = U8view then apply_stores v ws (ta_set_u8 ta j (word_of_int x) hp)
          else (Throws Unmodelled, hp))"

definition grayscale :: "u8 list \<Rightarrow> int \<Rightarrow> int \<Rightarrow> addr \<Rightarrow> int \<Rightarrow> heap \<Rightarrow> unit outcome \<times> heap" where
  "grayscale src w h dst code hp =
     (case Matrix_resize dst w h (Some Channels_C1) hp of
        (Throws e, hp1) \<Rightarrow> (Throws e, hp1)
      | (Returns u, hp1) \<Rightarrow>
          (case lookup (mats hp1) dst of
             None \<Rightarrow> (Throws TypeError, hp1)
           | Some m \<Rightarrow> apply_stores (m_data m) (grayscale_stores src w h code) hp1))"

subsection \<open>The reference conversion: one pixel at a time\<close>

text \<open>
  The specification's reference: for each row from top to bottom and each column from left
  to right, pixel \<open>y * w + x\<close> of the source gives byte \<open>y * w + x\<close> of the destination.
\<close>

definition reference_stores :: "u8 list \<Rightarrow> int \<Rightarrow> int \<Rightarrow> int \<Rightarrow> store list" where
  "reference_stores src w h code =
     (let (cn, idxR, idxG, idxB) = decode_layout code
      in concat (map (\<lambda>y. map (\<lambda>x. (int y * w + int x,
                                     or0 (pixel src idxR idxG idxB ((int y * w + int x) * cn))))
                              [0..<nat w])
                     [0..<nat h]))"

definition grayscale_reference :: "u8 list \<Rightarrow> int \<Rightarrow> int \<Rightarrow> addr \<Rightarrow> int \<Rightarrow> heap \<Rightarrow> unit outcome \<times> heap" where
  "grayscale_reference src w h dst code hp =
     (case Matrix_resize dst w h (Some Channels_C1) hp of
        (Throws e, hp1) \<Rightarrow> (Throws e, hp1)
      | (Returns u, hp1) \<Rightarrow>
          (case lookup (mats hp1) dst of
             None \<Rightarrow> (Throws TypeError, hp1)
           | Some m \<Rightarrow> apply_stores (m_data m) (reference_stores src w h code) hp1))"

section \<open>Notions used to state the properties\<close>

text \<open>The view \<open>selectTypedView\<close> returns for element type \<open>t\<close> over the buffer object \<open>d\<close>,
  the byte count \<open>cols * rows * channels * getDataTypeSize(type)\<close> of a matrix, the fields the
  constructor of \<open>Matrix\<close> sets before it binds a buffer, and the invariant of the data model:
  the recorded size of the buffer is at least the byte count.\<close>

definition view_for :: "int \<Rightarrow> Data \<Rightarrow> typed_array option" where
  "view_for t d =
     (if t = DataType_U8 then Some (d_u8 d)
      else if t = DataType_S32 then Some (d_i32 d)
      else if t = DataType_F32 then Some (d_f32 d)
      else if t = DataType_S64 \<or> t = DataType_F64 then Some (d_f64 d)
      else None)"

definition matrix_bytes :: "Matrix \<Rightarrow> jsnum" where
  "matrix_bytes m =
     js_mul (Num (m_cols m * m_rows m * m_channels m)) (to_number (getDataTypeSize (m_type m)))"

definition buffer_fits :: "heap \<Rightarrow> addr \<Rightarrow> bool" where
  "buffer_fits h a =
     (case lookup (mats h) a of
        None \<Rightarrow> False
      | Some m \<Rightarrow>
          (case m_buffer m of
             None \<Rightarrow> False
           | Some b \<Rightarrow>
               (case (lookup (datas h) b, getDataTypeSize (m_type m)) of
                  (Some d, Some s) \<Rightarrow> m_cols m * m_rows m * m_channels m * s \<le> d_size d
                | _ \<Rightarrow> False)))"

definition new_matrix :: "int \<Rightarrow> int \<Rightarrow> int \<Rightarrow> Matrix" where
  "new_matrix cols rows type =
     \<lparr>m_cols = to_int32 cols, m_rows = to_int32 rows,
      m_type = getDataType type, m_channels = getChannel type,
      m_buffer = None, m_data = None\<rparr>"




text \<open>For the proofs about the loops: the stores of \<open>n\<close> consecutive pixels, the first read at
  index \<open>i\<close> of the source and written at index \<open>j\<close> of the destination; and the number of
  iterations the unrolled loop makes from \<open>j\<close>.\<close>

definition px_stores :: "u8 list \<Rightarrow> int \<Rightarrow> int \<Rightarrow> int \<Rightarrow> int \<Rightarrow> int \<Rightarrow> int \<Rightarrow> nat \<Rightarrow> store list" where
  "px_stores src cn idxR idxG idxB i j n =
     map (\<lambda>k. (j + int k, or0 (pixel src idxR idxG idxB (i + int k * cn)))) [0..<n]"

definition blocks :: "int \<Rightarrow> int \<Rightarrow> nat" where
  "blocks limit j = (if j \<le> limit then nat ((limit - j) div 4 + 1) else 0)"


text \<open>Every \<open>Data\<close> object of \<open>h\<close> is still there, unchanged, in \<open>h'\<close>.\<close>

definition datas_kept :: "heap \<Rightarrow> heap \<Rightarrow> bool" where
  "datas_kept h h' = (take (length (datas h)) (datas h') = datas h)"


section \<open>Facts about alignment\<close>

lemma and_minus_8: "(k::int) AND (- 8) = k - k mod 8"
proof -
  have m: "(- 8 :: int) = NOT (mask 3)"
    by (simp add: mask_eq_exp_minus_1 not_int_def)
  have "k AND NOT (mask 3) = push_bit 3 (drop_bit 3 k)"
    by (rule bit_eqI) (auto simp add: bit_simps)
  also have "\<dots> = k - take_bit 3 k"
    using bits_ident [of 3 k] by simp
  finally show ?thesis
    by (simp add: m take_bit_eq_mod)
qed

lemma to_int32_id: "- (2 ^ 31) \<le> x \<Longrightarrow> x < 2 ^ 31 \<Longrightarrow> to_int32 x = x"
  by (simp add: to_int32_def)

lemma to_int32_range: "- (2 ^ 31) \<le> to_int32 x \<and> to_int32 x < 2 ^ 31"
proof -
  have "0 \<le> (x + 2 ^ 31) mod 2 ^ 32" "(x + 2 ^ 31) mod 2 ^ 32 < (2 ^ 32 :: int)"
    by simp_all
  then show ?thesis
    by (simp add: to_int32_def)
qed

lemma js_and_minus_8: "js_and (Num x) (- 8) = to_int32 x - to_int32 x mod 8"
proof -
  let ?y = "to_int32 x"
  have r: "- (2 ^ 31) \<le> ?y \<and> ?y < 2 ^ 31"
    by (rule to_int32_range)
  have "- (2 ^ 31) \<le> ?y - ?y mod 8"
  proof -
    have "(2 ^ 31 :: int) mod 8 = 0" by simp
    then have "(?y + 2 ^ 31) mod 8 = ?y mod 8"
      by (metis add.right_neutral mod_add_right_eq)
    moreover have "(?y + 2 ^ 31) mod 8 \<le> ?y + 2 ^ 31"
      using r by (intro zmod_le_nonneg_dividend) simp
    ultimately show ?thesis by simp
  qed
  moreover have "0 \<le> ?y mod 8"
    by simp
  ultimately have "to_int32 (?y - ?y mod 8) = ?y - ?y mod 8"
    using r by (intro to_int32_id) linarith+
  then show ?thesis
    by (simp add: js_and_def and_minus_8 to_int32_id)
qed

lemma js_and_minus_8_any: "js_and a (- 8) = js_to_int32 a - js_to_int32 a mod 8"
proof (cases a)
  case (Num x)
  then show ?thesis by (simp add: js_and_minus_8)
next
  case NaN
  then show ?thesis by (simp add: js_and_def to_int32_def)
qed

lemma align8_dvd: "8 dvd align8 n"
  unfolding align8_def js_and_minus_8_any
  by (simp add: minus_mod_eq_mult_div)

lemma align8_NaN: "align8 NaN = 0"
  by (simp add: align8_def js_and_def to_int32_def)

lemma align8_in_range:
  assumes "- (2 ^ 31) - 7 \<le> n" "n \<le> 2 ^ 31 - 8"
  shows "align8 (Num n) = n + 7 - (n + 7) mod 8"
  using assms by (simp add: align8_def js_and_minus_8 to_int32_id)

lemma align8_bounds:
  assumes "- (2 ^ 31) - 7 \<le> n" "n \<le> 2 ^ 31 - 8"
  shows "n \<le> align8 (Num n)" "align8 (Num n) < n + 8"
proof -
  have "0 \<le> (n + 7) mod 8" "(n + 7) mod 8 < 8" by simp_all
  then show "n \<le> align8 (Num n)" "align8 (Num n) < n + 8"
    using assms by (simp_all add: align8_in_range)
qed

section \<open>Facts about the constructor of \<open>Data\<close>\<close>

lemma nat_mod_of_dvd: "8 dvd (z::int) \<Longrightarrow> 0 \<le> z \<Longrightarrow> nat z mod 4 = 0 \<and> nat z mod 8 = 0"
  by presburger

lemma Data_new_None:
  "Data_new n None h =
     (if align8 n < 0 then (Throws RangeError, h)
      else (Returns (length (datas h)),
            h\<lparr>abufs := abufs h @ [replicate (nat (align8 n)) 0],
              datas := datas h @ [fresh_data (align8 n) (length (abufs h))]\<rparr>))"
proof (cases "align8 n < 0")
  case True
  then show ?thesis by (simp add: Data_new_def new_ArrayBuffer_def)
next
  case False
  then have "nat (align8 n) mod 4 = 0 \<and> nat (align8 n) mod 8 = 0"
    using align8_dvd [of n] by (intro nat_mod_of_dvd) simp_all
  with False show ?thesis
    by (simp add: Data_new_def new_ArrayBuffer_def new_typed_array_def lookup_def
          view_elem_size_def fresh_data_def nth_append Let_def)
qed

lemma Data_new_Some:
  "Data_new n (Some ab) h =
     (case lookup (abufs h) ab of
        None \<Rightarrow> (Throws TypeError, h)
      | Some bytes \<Rightarrow>
          if length bytes mod 8 = 0
          then (Returns (length (datas h)), h\<lparr>datas := datas h @ [fresh_data (align8 n) ab]\<rparr>)
          else (Throws RangeError, h))"
proof (cases "lookup (abufs h) ab")
  case None
  then show ?thesis by (simp add: Data_new_def new_typed_array_def)
next
  case (Some bytes)
  have "length bytes mod 8 = 0 \<Longrightarrow> length bytes mod 4 = 0"
    by presburger
  with Some show ?thesis
    by (auto simp add: Data_new_def new_typed_array_def view_elem_size_def fresh_data_def Let_def)
qed

text \<open>Within the signed 32-bit range the recorded size is the requested size rounded up to
  the next multiple of 8, and the new buffer has exactly that many bytes.\<close>

lemma Data_new_in_range:
  assumes "0 \<le> n" "n \<le> 2 ^ 31 - 8"
  shows "Data_new (Num n) None h =
           (Returns (length (datas h)),
            h\<lparr>abufs := abufs h @ [replicate (nat (align8 (Num n))) 0],
              datas := datas h @ [fresh_data (align8 (Num n)) (length (abufs h))]\<rparr>)"
    and "align8 (Num n) = n + 7 - (n + 7) mod 8"
    and "8 dvd align8 (Num n)" and "n \<le> align8 (Num n)" and "align8 (Num n) < n + 8"
proof -
  have lo: "- (2 ^ 31) - 7 \<le> n"
    using assms(1) by simp
  show "n \<le> align8 (Num n)" "align8 (Num n) < n + 8"
    using align8_bounds [OF lo assms(2)] by simp_all
  then have "\<not> align8 (Num n) < 0"
    using assms(1) by simp
  then show "Data_new (Num n) None h =
           (Returns (length (datas h)),
            h\<lparr>abufs := abufs h @ [replicate (nat (align8 (Num n))) 0],
              datas := datas h @ [fresh_data (align8 (Num n)) (length (abufs h))]\<rparr>)"
    by (simp add: Data_new_None)
  show "align8 (Num n) = n + 7 - (n + 7) mod 8"
    by (rule align8_in_range [OF lo assms(2)])
  show "8 dvd align8 (Num n)"
    by (rule align8_dvd)
qed

text \<open>
  C9. For every non-negative requested size \<open>n\<close> the recorded size is \<open>(n + 7) & ~7\<close>, a
  multiple of 8 that is at least \<open>n\<close>. The operands of \<open>&\<close> are truncated to 32 bits, so this
  fails from \<open>n = 2 ^ 31 - 7\<close> on: a request of \<open>2 ^ 32\<close> bytes records size 0 over an empty
  buffer, and a request of \<open>2 ^ 31\<close> bytes computes a negative size and throws.
\<close>

theorem C9_size_wraps_at_32_bits:
  "Data_new (Num 4294967296) None empty_heap =
     (Returns 0, \<lparr>abufs = [[]], datas = [fresh_data 0 0], mats = [], nodes = []\<rparr>)
   \<and> d_size (fresh_data 0 0) < 4294967296
   \<and> Data_new (Num 2147483648) None empty_heap = (Throws RangeError, empty_heap)"
  by (simp add: Data_new_None align8_def js_and_def to_int32_def empty_heap_def fresh_data_def)



section \<open>Facts about \<open>Matrix\<close>\<close>

lemma lookup_Some_iff: "lookup xs a = Some x \<longleftrightarrow> a < length xs \<and> xs ! a = x"
  by (auto simp add: lookup_def)

lemma lookup_update: "lookup (xs[a := x]) b = (if b < length xs then Some (if a = b then x else xs ! b) else None)"
  by (auto simp add: lookup_def)

lemma lookup_append_last: "lookup (xs @ [x]) (length xs) = Some x"
  by (simp add: lookup_def)

lemma lookup_append_old: "lookup xs a = Some y \<Longrightarrow> lookup (xs @ zs) a = Some y"
  by (auto simp add: lookup_def nth_append)

lemma selectTypedView_eq:
  assumes "m_buffer m = Some b" "lookup (datas h) b = Some d"
  shows "selectTypedView m h = Returns (view_for (m_type m) d)"
  using assms by (simp add: selectTypedView_def buffer_view_def view_for_def)

lemma selectTypedView_unknown:
  assumes "getDataTypeSize (m_type m) = None"
  shows "selectTypedView m h = Returns None"
  using assms by (simp add: selectTypedView_def getDataTypeSize_def split: if_splits)

lemma view_for_unknown: "getDataTypeSize t = None \<Longrightarrow> view_for t d = None"
  by (simp add: view_for_def getDataTypeSize_def split: if_splits)

lemma Matrix_allocate_eq:
  assumes "lookup (mats h) a = Some m"
  shows "Matrix_allocate a h =
     (let sz = align8 (matrix_bytes m) in
      if sz < 0 then (Throws RangeError, h)
      else (Returns (),
            h\<lparr>abufs := abufs h @ [replicate (nat sz) 0],
              datas := datas h @ [fresh_data sz (length (abufs h))],
              mats := (mats h)[a := m\<lparr>m_buffer := Some (length (datas h)),
                  m_data := view_for (m_type m) (fresh_data sz (length (abufs h)))\<rparr>]\<rparr>))"
proof -
  have sel: "selectTypedView (m\<lparr>m_buffer := Some (length (datas h))\<rparr>)
      (h\<lparr>abufs := abufs h @ [replicate (nat sz) 0],
              datas := datas h @ [fresh_data sz ab], mats := ms\<rparr>)
     = Returns (view_for (m_type m) (fresh_data sz ab))" for sz ab ms
    using selectTypedView_eq [of "m\<lparr>m_buffer := Some (length (datas h))\<rparr>" "length (datas h)" _ "fresh_data sz ab"]
    by (simp add: lookup_append_last)
  show ?thesis
    using assms
    by (simp add: Matrix_allocate_def Data_new_None Let_def matrix_bytes_def sel)
qed

lemma Matrix_resize_eq:
  assumes "lookup (mats h) a = Some m" "m_buffer m = Some b" "lookup (datas h) b = Some d"
  shows "Matrix_resize a c r cho h =
     (let ch = (case cho of None \<Rightarrow> m_channels m | Some x \<Rightarrow> x);
          m1 = m\<lparr>m_cols := c, m_rows := r, m_channels := ch\<rparr>;
          h1 = h\<lparr>mats := (mats h)[a := m1]\<rparr>
      in if js_gt (matrix_bytes m1) (Num (d_size d)) then Matrix_allocate a h1
         else (Returns (), h1))"
  using assms by (simp add: Matrix_resize_def Let_def matrix_bytes_def)

lemma Matrix_new_None:
  "Matrix_new c r t None h =
     (let m0 = new_matrix c r t; sz = align8 (matrix_bytes m0) in
      if sz < 0 then (Throws RangeError, h\<lparr>mats := mats h @ [m0]\<rparr>)
      else (Returns (length (mats h)),
            h\<lparr>abufs := abufs h @ [replicate (nat sz) 0],
              datas := datas h @ [fresh_data sz (length (abufs h))],
              mats := mats h @ [m0\<lparr>m_buffer := Some (length (datas h)),
                  m_data := view_for (m_type m0) (fresh_data sz (length (abufs h)))\<rparr>]\<rparr>))"
proof -
  have l: "lookup (mats (h\<lparr>mats := mats h @ [new_matrix c r t]\<rparr>)) (length (mats h))
      = Some (new_matrix c r t)"
    by (simp add: lookup_append_last)
  show ?thesis
    unfolding Matrix_new_def new_matrix_def [symmetric] Let_def
    by (simp add: Matrix_allocate_eq [OF l] Let_def)
qed

lemma Matrix_new_Some:
  assumes "lookup (datas h) b = Some d"
  shows "Matrix_new c r t (Some b) h =
     (Returns (length (mats h)),
      h\<lparr>mats := mats h @ [(new_matrix c r t)\<lparr>m_buffer := Some b,
                  m_data := view_for (getDataType t) d\<rparr>]\<rparr>)"
proof -
  have "selectTypedView (new_matrix c r t\<lparr>m_buffer := Some b\<rparr>) (h\<lparr>mats := ms\<rparr>)
     = Returns (view_for (getDataType t) d)" for ms
    using selectTypedView_eq [of "new_matrix c r t\<lparr>m_buffer := Some b\<rparr>" b "h\<lparr>mats := ms\<rparr>" d] assms
    by (simp add: new_matrix_def)
  then show ?thesis
    unfolding Matrix_new_def new_matrix_def [symmetric] Let_def
    by simp
qed

lemma Matrix_resize_fits:
  assumes "lookup (mats h) a = Some m" "m_buffer m = Some b" "lookup (datas h) b = Some d"
    and "getDataTypeSize (m_type m) = Some s" "c * r * ch * s \<le> d_size d"
  shows "Matrix_resize a c r (Some ch) h =
           (Returns (), h\<lparr>mats := (mats h)[a := m\<lparr>m_cols := c, m_rows := r, m_channels := ch\<rparr>]\<rparr>)"
  using assms(4,5)
  by (simp add: Matrix_resize_eq [OF assms(1-3)] matrix_bytes_def)

lemma Matrix_resize_grows:
  assumes "lookup (mats h) a = Some m" "m_buffer m = Some b" "lookup (datas h) b = Some d"
    and "getDataTypeSize (m_type m) = Some s" "d_size d < c * r * ch * s"
    and "0 \<le> c * r * ch * s" "c * r * ch * s \<le> 2 ^ 31 - 8"
  shows "Matrix_resize a c r (Some ch) h =
           (Returns (),
            h\<lparr>abufs := abufs h @ [replicate (nat (align8 (Num (c * r * ch * s)))) 0],
              datas := datas h @ [fresh_data (align8 (Num (c * r * ch * s))) (length (abufs h))],
              mats := (mats h)[a := m\<lparr>m_cols := c, m_rows := r, m_channels := ch,
                  m_buffer := Some (length (datas h)),
                  m_data := view_for (m_type m)
                     (fresh_data (align8 (Num (c * r * ch * s))) (length (abufs h)))\<rparr>]\<rparr>)"
    and "c * r * ch * s \<le> align8 (Num (c * r * ch * s))"
    and "length (datas h) \<noteq> b"
proof -
  let ?m1 = "m\<lparr>m_cols := c, m_rows := r, m_channels := ch\<rparr>"
  let ?h1 = "h\<lparr>mats := (mats h)[a := ?m1]\<rparr>"
  have a: "a < length (mats h)"
    using assms(1) by (simp add: lookup_Some_iff)
  have l1: "lookup (mats ?h1) a = Some ?m1"
    using a by (simp add: lookup_update)
  have mb: "matrix_bytes ?m1 = Num (c * r * ch * s)"
    using assms(4) by (simp add: matrix_bytes_def)
  show fits: "c * r * ch * s \<le> align8 (Num (c * r * ch * s))"
    using Data_new_in_range(4) [OF assms(6,7)] .
  then have nn: "\<not> align8 (Num (c * r * ch * s)) < 0"
    using assms(6) by simp
  show "length (datas h) \<noteq> b"
    using assms(3) by (simp add: lookup_Some_iff)
  show "Matrix_resize a c r (Some ch) h =
           (Returns (),
            h\<lparr>abufs := abufs h @ [replicate (nat (align8 (Num (c * r * ch * s)))) 0],
              datas := datas h @ [fresh_data (align8 (Num (c * r * ch * s))) (length (abufs h))],
              mats := (mats h)[a := m\<lparr>m_cols := c, m_rows := r, m_channels := ch,
                  m_buffer := Some (length (datas h)),
                  m_data := view_for (m_type m)
                     (fresh_data (align8 (Num (c * r * ch * s))) (length (abufs h)))\<rparr>]\<rparr>)"
    using assms(5) nn
    by (simp add: Matrix_resize_eq [OF assms(1-3)] Matrix_allocate_eq [OF l1] mb Let_def)
qed

lemma U8C1: "getDataType 257 = 256" "getChannel 257 = 1"
  by (simp_all add: getDataType_def getChannel_def js_and_def to_int32_def)

lemma Matrix_new_1x1_U8: "Matrix_new 1 1 257 None empty_heap =
   (Returns 0, \<lparr>abufs = [replicate 8 0], datas = [fresh_data 8 0],
       mats = [\<lparr>m_cols = 1, m_rows = 1, m_type = 256, m_channels = 1, m_buffer = Some 0,
                m_data = Some \<lparr>ta_kind = U8view, ta_buffer = 0\<rparr>\<rparr>], nodes = []\<rparr>)"
  by (simp add: Matrix_new_None new_matrix_def U8C1 matrix_bytes_def getDataTypeSize_def
      DataType_U8_def align8_def js_and_def to_int32_def empty_heap_def view_for_def fresh_data_def
      Let_def)

lemma align8_ge:
  assumes "n \<le> 2 ^ 31 - 8" "0 \<le> align8 (Num n)"
  shows "n \<le> align8 (Num n)"
proof (cases "0 \<le> n")
  case True
  then show ?thesis using Data_new_in_range(4) [OF True assms(1)] by simp
next
  case False
  then show ?thesis using assms(2) by simp
qed

lemma Matrix_allocate_fits:
  assumes "Matrix_allocate a h = (Returns (), h')" "lookup (mats h') a = Some m'"
    and "getDataTypeSize (m_type m') = Some s"
    and "m_cols m' * m_rows m' * m_channels m' * s \<le> 2 ^ 31 - 8"
  shows "buffer_fits h' a"
proof -
  obtain m where m: "lookup (mats h) a = Some m"
    using assms(1) by (cases "lookup (mats h) a") (simp_all add: Matrix_allocate_def)
  let ?sz = "align8 (matrix_bytes m)"
  have nn: "\<not> ?sz < 0"
    using assms(1) by (auto simp add: Matrix_allocate_eq [OF m] Let_def)
  have h': "h' = h\<lparr>abufs := abufs h @ [replicate (nat ?sz) 0],
              datas := datas h @ [fresh_data ?sz (length (abufs h))],
              mats := (mats h)[a := m\<lparr>m_buffer := Some (length (datas h)),
                  m_data := view_for (m_type m) (fresh_data ?sz (length (abufs h)))\<rparr>]\<rparr>"
    using assms(1) nn by (simp add: Matrix_allocate_eq [OF m] Let_def)
  have a: "a < length (mats h)"
    using m by (simp add: lookup_Some_iff)
  have m': "m' = m\<lparr>m_buffer := Some (length (datas h)),
                  m_data := view_for (m_type m) (fresh_data ?sz (length (abufs h)))\<rparr>"
    using assms(2) a by (simp add: h' lookup_update)
  have ty: "getDataTypeSize (m_type m) = Some s"
    using assms(3) by (simp add: m')
  have mb: "matrix_bytes m = Num (m_cols m * m_rows m * m_channels m * s)"
    by (simp add: matrix_bytes_def ty)
  have "m_cols m * m_rows m * m_channels m * s \<le> ?sz"
    using assms(4) nn unfolding mb by (intro align8_ge) (simp_all add: m')
  then show ?thesis
    using a by (simp add: buffer_fits_def h' lookup_update lookup_append_last ty fresh_data_def)
qed

lemma Matrix_new_fits:
  assumes "Matrix_new c r t None h = (Returns a, h')" "lookup (mats h') a = Some m'"
    and "getDataTypeSize (m_type m') = Some s"
    and "m_cols m' * m_rows m' * m_channels m' * s \<le> 2 ^ 31 - 8"
  shows "buffer_fits h' a"
proof -
  let ?h0 = "h\<lparr>mats := mats h @ [new_matrix c r t]\<rparr>"
  have "Matrix_allocate (length (mats h)) ?h0 = (Returns (), h') \<and> a = length (mats h)"
    using assms(1)
    unfolding Matrix_new_def new_matrix_def [symmetric] Let_def
    by (auto split: prod.splits outcome.splits)
  then show ?thesis
    using Matrix_allocate_fits [of a ?h0 h' m' s] assms(2-4) by simp
qed

lemma Matrix_resize_fits_after:
  assumes "Matrix_resize a c r cho h = (Returns (), h')" "lookup (mats h') a = Some m'"
    and "getDataTypeSize (m_type m') = Some s"
    and "m_cols m' * m_rows m' * m_channels m' * s \<le> 2 ^ 31 - 8"
  shows "buffer_fits h' a"
proof -
  obtain m where m: "lookup (mats h) a = Some m"
    using assms(1) by (cases "lookup (mats h) a") (simp_all add: Matrix_resize_def)
  obtain b where b: "m_buffer m = Some b"
    using assms(1) m by (cases "m_buffer m") (simp_all add: Matrix_resize_def Let_def)
  obtain d where d: "lookup (datas h) b = Some d"
    using assms(1) m b by (cases "lookup (datas h) b") (simp_all add: Matrix_resize_def Let_def)
  let ?ch = "case cho of None \<Rightarrow> m_channels m | Some x \<Rightarrow> x"
  let ?m1 = "m\<lparr>m_cols := c, m_rows := r, m_channels := ?ch\<rparr>"
  let ?h1 = "h\<lparr>mats := (mats h)[a := ?m1]\<rparr>"
  have a: "a < length (mats h)"
    using m by (simp add: lookup_Some_iff)
  show ?thesis
  proof (cases "js_gt (matrix_bytes ?m1) (Num (d_size d))")
    case True
    then have "Matrix_allocate a ?h1 = (Returns (), h')"
      using assms(1) by (simp add: Matrix_resize_eq [OF m b d] Let_def)
    then show ?thesis
      using assms(2-4) by (rule Matrix_allocate_fits)
  next
    case False
    then have h': "h' = ?h1"
      using assms(1) by (simp add: Matrix_resize_eq [OF m b d] Let_def)
    have m': "m' = ?m1"
      using assms(2) a by (simp add: h' lookup_update)
    have ty: "getDataTypeSize (m_type m) = Some s"
      using assms(3) by (simp add: m')
    have "c * r * ?ch * s \<le> d_size d"
      using False by (simp add: matrix_bytes_def ty)
    then show ?thesis
      using a b d by (simp add: buffer_fits_def h' lookup_update ty)
  qed
qed

text \<open>
  C6 (amended). After a construction that allocates its own buffer, after every \<open>allocate\<close>
  and after every \<open>resize\<close> that returns, the recorded size of the matrix's buffer is at least
  \<open>cols * rows * channels * elementSize\<close>, for a matrix of a recognised element type whose byte
  count is at most \<open>2 ^ 31 - 8\<close>. A construction over a caller-supplied buffer does not
  establish this.
\<close>

theorem C6_buffer_fits_after_allocation:
  assumes "Matrix_new c r t None h = (Returns a, h') \<or>
           Matrix_allocate a h = (Returns (), h') \<or>
           Matrix_resize a c r cho h = (Returns (), h')"
    and "lookup (mats h') a = Some m'"
    and "getDataTypeSize (m_type m') = Some s"
    and "m_cols m' * m_rows m' * m_channels m' * s \<le> 2 ^ 31 - 8"
  shows "buffer_fits h' a"
proof -
  from assms(1) consider
      (new) "Matrix_new c r t None h = (Returns a, h')"
    | (alloc) "Matrix_allocate a h = (Returns (), h')"
    | (resize) "Matrix_resize a c r cho h = (Returns (), h')"
    by blast
  then show ?thesis
  proof cases
    case new
    then show ?thesis using assms(2-4) by (rule Matrix_new_fits)
  next
    case alloc
    then show ?thesis using assms(2-4) by (rule Matrix_allocate_fits)
  next
    case resize
    then show ?thesis using assms(2-4) by (rule Matrix_resize_fits_after)
  qed
qed

lemma Data_new_8: "Data_new (Num 8) None empty_heap =
   (Returns 0, \<lparr>abufs = [replicate 8 0], datas = [fresh_data 8 0], mats = [], nodes = []\<rparr>)"
  by (simp add: Data_new_None align8_def js_and_def to_int32_def empty_heap_def)

text \<open>C6 as stated fails for a construction over a caller-supplied buffer: a 100 x 100
  byte matrix over a buffer of size 8 is constructed without any check.\<close>

theorem C6_external_buffer_counterexample:
  "fst (Matrix_new 100 100 257 (Some 0) (snd (Data_new (Num 8) None empty_heap))) = Returns 0
   \<and> \<not> buffer_fits (snd (Matrix_new 100 100 257 (Some 0) (snd (Data_new (Num 8) None empty_heap)))) 0"
proof -
  have l: "lookup (datas \<lparr>abufs = [replicate 8 0], datas = [fresh_data 8 0], mats = [], nodes = []\<rparr>) 0
     = Some (fresh_data 8 0)"
    by (simp add: lookup_def)
  have new: "Matrix_new 100 100 257 (Some 0) (snd (Data_new (Num 8) None empty_heap)) =
     (Returns 0, \<lparr>abufs = [replicate 8 0], datas = [fresh_data 8 0],
        mats = [\<lparr>m_cols = 100, m_rows = 100, m_type = 256, m_channels = 1, m_buffer = Some 0,
                m_data = Some \<lparr>ta_kind = U8view, ta_buffer = 0\<rparr>\<rparr>], nodes = []\<rparr>)"
    unfolding Data_new_8 snd_conv Matrix_new_Some [OF l]
    by (simp add: new_matrix_def U8C1 to_int32_def view_for_def DataType_U8_def fresh_data_def)
  show ?thesis
    unfolding new
    by (simp add: buffer_fits_def lookup_def getDataTypeSize_def DataType_U8_def fresh_data_def)
qed

text \<open>A 4 x 4 byte matrix allocates 16 bytes.\<close>

theorem C6_buffer_fits_after_allocation_witness:
  "Matrix_new 4 4 257 None empty_heap =
     (Returns 0, \<lparr>abufs = [replicate 16 0], datas = [fresh_data 16 0],
       mats = [\<lparr>m_cols = 4, m_rows = 4, m_type = 256, m_channels = 1, m_buffer = Some 0,
                m_data = Some \<lparr>ta_kind = U8view, ta_buffer = 0\<rparr>\<rparr>], nodes = []\<rparr>)
   \<and> buffer_fits \<lparr>abufs = [replicate 16 0], datas = [fresh_data 16 0],
       mats = [\<lparr>m_cols = 4, m_rows = 4, m_type = 256, m_channels = 1, m_buffer = Some 0,
                m_data = Some \<lparr>ta_kind = U8view, ta_buffer = 0\<rparr>\<rparr>], nodes = []\<rparr> 0"
proof -
  let ?m = "\<lparr>m_cols = 4, m_rows = 4, m_type = 256, m_channels = 1, m_buffer = Some 0,
                m_data = Some \<lparr>ta_kind = U8view, ta_buffer = 0\<rparr>\<rparr>"
  let ?h = "\<lparr>abufs = [replicate 16 0], datas = [fresh_data 16 0], mats = [?m], nodes = []\<rparr>"
  have new: "Matrix_new 4 4 257 None empty_heap = (Returns 0, ?h)"
    by (simp add: Matrix_new_None new_matrix_def U8C1 matrix_bytes_def getDataTypeSize_def
      DataType_U8_def align8_def js_and_def to_int32_def empty_heap_def view_for_def fresh_data_def
      Let_def)
  have l: "lookup (mats ?h) 0 = Some ?m"
    by (simp add: lookup_def)
  have ty: "getDataTypeSize (m_type ?m) = Some 1"
    by (simp add: getDataTypeSize_def DataType_U8_def)
  have sz: "m_cols ?m * m_rows ?m * m_channels ?m * 1 \<le> 2 ^ 31 - 8"
    by simp
  show ?thesis
    using C6_buffer_fits_after_allocation [OF disjI1, OF new l ty sz] new by simp
qed

text \<open>
  C1. A \<open>resize\<close> whose byte count fits the buffer keeps the buffer and the view
  (\<open>Matrix_resize_fits\<close>); one whose byte count exceeds it installs a new buffer at least as
  large as requested as long as the byte count is at most \<open>2 ^ 31 - 8\<close>
  (\<open>Matrix_resize_grows\<close>). Past that the claim fails: resizing a 1 x 1 byte matrix to
  65536 x 65536 needs \<open>2 ^ 32\<close> bytes and installs a buffer of recorded size 0 with no bytes.
\<close>

theorem C1_resize_past_32_bits:
  "Matrix_resize 0 65536 65536 None
     \<lparr>abufs = [replicate 8 0], datas = [fresh_data 8 0],
       mats = [\<lparr>m_cols = 1, m_rows = 1, m_type = 256, m_channels = 1, m_buffer = Some 0,
                m_data = Some \<lparr>ta_kind = U8view, ta_buffer = 0\<rparr>\<rparr>], nodes = []\<rparr>
   = (Returns (),
      \<lparr>abufs = [replicate 8 0, []], datas = [fresh_data 8 0, fresh_data 0 1],
       mats = [\<lparr>m_cols = 65536, m_rows = 65536, m_type = 256, m_channels = 1, m_buffer = Some 1,
                m_data = Some \<lparr>ta_kind = U8view, ta_buffer = 1\<rparr>\<rparr>], nodes = []\<rparr>)
   \<and> d_size (fresh_data 0 1) < 65536 * 65536 * 1 * 1"
proof -
  let ?m = "\<lparr>m_cols = 1, m_rows = 1, m_type = 256, m_channels = 1, m_buffer = Some 0,
                m_data = Some \<lparr>ta_kind = U8view, ta_buffer = 0\<rparr>\<rparr>"
  let ?h = "\<lparr>abufs = [replicate 8 0], datas = [fresh_data 8 0], mats = [?m], nodes = []\<rparr>"
  let ?m1 = "?m\<lparr>m_cols := 65536, m_rows := 65536, m_channels := 1\<rparr>"
  have m: "lookup (mats ?h) 0 = Some ?m" and b: "m_buffer ?m = Some 0"
    and d: "lookup (datas ?h) 0 = Some (fresh_data 8 0)"
    by (simp_all add: lookup_def)
  have l1: "lookup (mats (?h\<lparr>mats := (mats ?h)[0 := ?m1]\<rparr>)) 0 = Some ?m1"
    by (simp add: lookup_def)
  have mb: "matrix_bytes ?m1 = Num 4294967296"
    by (simp add: matrix_bytes_def getDataTypeSize_def DataType_U8_def)
  have a: "align8 (Num 4294967296) = 0"
    by (simp add: align8_def js_and_def to_int32_def)
  have gt: "js_gt (Num 4294967296) (Num (d_size (fresh_data 8 0)))"
    by (simp add: fresh_data_def)
  have "Matrix_resize 0 65536 65536 None ?h = Matrix_allocate 0 (?h\<lparr>mats := (mats ?h)[0 := ?m1]\<rparr>)"
    unfolding Matrix_resize_eq [OF m b d] Let_def using gt mb by simp
  also have "\<dots> = (Returns (),
      \<lparr>abufs = [replicate 8 0, []], datas = [fresh_data 8 0, fresh_data 0 1],
       mats = [\<lparr>m_cols = 65536, m_rows = 65536, m_type = 256, m_channels = 1, m_buffer = Some 1,
                m_data = Some \<lparr>ta_kind = U8view, ta_buffer = 1\<rparr>\<rparr>], nodes = []\<rparr>)"
    unfolding Matrix_allocate_eq [OF l1] mb a Let_def
    by (simp add: view_for_def DataType_U8_def fresh_data_def)
  finally show ?thesis
    by (simp add: fresh_data_def)
qed

section \<open>Facts about the pool\<close>

lemma PoolNode_new_eq:
  "PoolNode_new n h =
     (if align8 (Num n) < 0 then (Throws RangeError, h)
      else (Returns (length (nodes h)),
            h\<lparr>abufs := abufs h @ [replicate (nat (align8 (Num n))) 0],
              datas := datas h @ [fresh_data (align8 (Num n)) (length (abufs h))],
              nodes := nodes h @ [\<lparr>n_next = None, n_data = length (datas h),
                                    n_size = align8 (Num n)\<rparr>]\<rparr>))"
  by (simp add: PoolNode_new_def Data_new_None lookup_append_last fresh_data_def)

lemma PoolNode_resize_eq:
  assumes "lookup (nodes h) a = Some nd"
  shows "PoolNode_resize a n h =
     (if align8 (Num n) < 0 then (Throws RangeError, h)
      else (Returns (),
            h\<lparr>abufs := abufs h @ [replicate (nat (align8 (Num n))) 0],
              datas := datas h @ [fresh_data (align8 (Num n)) (length (abufs h))],
              nodes := (nodes h)[a := nd\<lparr>n_data := length (datas h),
                                         n_size := align8 (Num n)\<rparr>]\<rparr>))"
  using assms
  by (simp add: PoolNode_resize_def Data_new_None lookup_append_last fresh_data_def)

lemma Cache_get_buffer_exhausted:
  "c_head c = None \<Longrightarrow> Cache_get_buffer n c h = (Throws CacheExhausted, c, h)"
  by (simp add: Cache_get_buffer_def)

lemma Cache_get_buffer_eq:
  assumes "c_head c = Some a" "lookup (nodes h) a = Some nd"
  shows "Cache_get_buffer n c h =
     (if n \<le> n_size nd then (Returns a, c\<lparr>c_head := n_next nd\<rparr>, h)
      else if align8 (Num n) < 0 then (Throws RangeError, c\<lparr>c_head := n_next nd\<rparr>, h)
      else (Returns a, c\<lparr>c_head := n_next nd\<rparr>,
            h\<lparr>abufs := abufs h @ [replicate (nat (align8 (Num n))) 0],
              datas := datas h @ [fresh_data (align8 (Num n)) (length (abufs h))],
              nodes := (nodes h)[a := nd\<lparr>n_data := length (datas h),
                                         n_size := align8 (Num n)\<rparr>]\<rparr>))"
  using assms
  by (simp add: Cache_get_buffer_def PoolNode_resize_eq [OF assms(2)] Let_def)

text \<open>\<open>put_buffer\<close> never assigns \<open>head\<close>: a pool that is exhausted stays exhausted.\<close>

lemma Cache_put_buffer_head:
  "c_head (fst (snd (Cache_put_buffer node c h))) = c_head c"
  by (simp add: Cache_put_buffer_def Let_def split: prod.splits outcome.splits)

lemma Cache_allocate_0_8:
  "Cache_allocate 0 8 Cache_new empty_heap =
     (Returns (), \<lparr>c_head = Some 0, c_tail = Some 0\<rparr>,
      \<lparr>abufs = [replicate 8 0], datas = [fresh_data 8 0], mats = [],
        nodes = [\<lparr>n_next = None, n_data = 0, n_size = 8\<rparr>]\<rparr>)"
proof -
  have a: "align8 (Num 8) = 8"
    by (simp add: align8_def js_and_def to_int32_def)
  show ?thesis
    by (simp add: Cache_allocate_def PoolNode_new_eq a allocate_loop.simps Cache_new_def
        empty_heap_def)
qed

text \<open>
  C2. After \<open>get_buffer\<close> and \<open>put_buffer\<close> of the same node the next \<open>get_buffer\<close> should
  succeed. In the pool that \<open>allocate(0, 8)\<close> builds (one free node) it does not: \<open>get_buffer\<close>
  sets \<open>head\<close> to \<open>null\<close>, \<open>put_buffer\<close> only appends at \<open>tail\<close>, and the next \<open>get_buffer\<close>
  reports exhaustion.
\<close>

theorem C2_single_node_pool_stays_exhausted:
  "Cache_get_buffer 8 \<lparr>c_head = Some 0, c_tail = Some 0\<rparr>
      \<lparr>abufs = [replicate 8 0], datas = [fresh_data 8 0], mats = [],
        nodes = [\<lparr>n_next = None, n_data = 0, n_size = 8\<rparr>]\<rparr>
     = (Returns 0, \<lparr>c_head = None, c_tail = Some 0\<rparr>,
        \<lparr>abufs = [replicate 8 0], datas = [fresh_data 8 0], mats = [],
          nodes = [\<lparr>n_next = None, n_data = 0, n_size = 8\<rparr>]\<rparr>)
   \<and> Cache_put_buffer 0 \<lparr>c_head = None, c_tail = Some 0\<rparr>
      \<lparr>abufs = [replicate 8 0], datas = [fresh_data 8 0], mats = [],
        nodes = [\<lparr>n_next = None, n_data = 0, n_size = 8\<rparr>]\<rparr>
     = (Returns (), \<lparr>c_head = None, c_tail = Some 0\<rparr>,
        \<lparr>abufs = [replicate 8 0], datas = [fresh_data 8 0], mats = [],
          nodes = [\<lparr>n_next = None, n_data = 0, n_size = 8\<rparr>]\<rparr>)
   \<and> Cache_get_buffer 8 \<lparr>c_head = None, c_tail = Some 0\<rparr>
      \<lparr>abufs = [replicate 8 0], datas = [fresh_data 8 0], mats = [],
        nodes = [\<lparr>n_next = None, n_data = 0, n_size = 8\<rparr>]\<rparr>
     = (Throws CacheExhausted, \<lparr>c_head = None, c_tail = Some 0\<rparr>,
        \<lparr>abufs = [replicate 8 0], datas = [fresh_data 8 0], mats = [],
          nodes = [\<lparr>n_next = None, n_data = 0, n_size = 8\<rparr>]\<rparr>)"
  by (simp add: Cache_get_buffer_def Cache_put_buffer_def set_next_def lookup_def)

text \<open>
  C4. \<open>get_buffer\<close> fails exactly when \<open>head\<close> is \<open>null\<close>, leaving the pool unchanged, and
  otherwise returns the head node with a capacity of at least the requested size. Up to
  \<open>2 ^ 31 - 8\<close> requested bytes this is \<open>Cache_get_buffer_exhausted\<close> and
  \<open>Cache_get_buffer_eq\<close>. Past that it fails: a request of \<open>2 ^ 32\<close> bytes returns the node
  with a new buffer of size 0, and a request of \<open>2 ^ 31\<close> bytes throws a \<open>RangeError\<close> after
  \<open>head\<close> was advanced.
\<close>

theorem C4_get_buffer_past_32_bits:
  "Cache_get_buffer 4294967296 \<lparr>c_head = Some 0, c_tail = Some 0\<rparr>
      \<lparr>abufs = [replicate 8 0], datas = [fresh_data 8 0], mats = [],
        nodes = [\<lparr>n_next = None, n_data = 0, n_size = 8\<rparr>]\<rparr>
     = (Returns 0, \<lparr>c_head = None, c_tail = Some 0\<rparr>,
        \<lparr>abufs = [replicate 8 0, []], datas = [fresh_data 8 0, fresh_data 0 1], mats = [],
          nodes = [\<lparr>n_next = None, n_data = 1, n_size = 0\<rparr>]\<rparr>)
   \<and> Cache_get_buffer 2147483648 \<lparr>c_head = Some 0, c_tail = Some 0\<rparr>
      \<lparr>abufs = [replicate 8 0], datas = [fresh_data 8 0], mats = [],
        nodes = [\<lparr>n_next = None, n_data = 0, n_size = 8\<rparr>]\<rparr>
     = (Throws RangeError, \<lparr>c_head = None, c_tail = Some 0\<rparr>,
        \<lparr>abufs = [replicate 8 0], datas = [fresh_data 8 0], mats = [],
          nodes = [\<lparr>n_next = None, n_data = 0, n_size = 8\<rparr>]\<rparr>)"
proof -
  let ?h = "\<lparr>abufs = [replicate 8 0], datas = [fresh_data 8 0], mats = [],
        nodes = [\<lparr>n_next = None, n_data = 0, n_size = 8\<rparr>]\<rparr>"
  have hd: "c_head \<lparr>c_head = Some 0, c_tail = Some 0\<rparr> = Some 0"
    by simp
  have nd: "lookup (nodes ?h) 0 = Some \<lparr>n_next = None, n_data = 0, n_size = 8\<rparr>"
    by (simp add: lookup_def)
  have a: "align8 (Num 4294967296) = 0" "align8 (Num 2147483648) = - 2147483648"
    by (simp_all add: align8_def js_and_def to_int32_def)
  show ?thesis
    unfolding Cache_get_buffer_eq [OF hd nd] a by simp
qed

section \<open>Facts about \<open>Pyramid.build\<close>\<close>




section \<open>Facts about the grayscale loops\<close>

lemma px_stores_0: "px_stores src cn R G B i j 0 = []"
  by (simp add: px_stores_def)

lemma px_stores_Suc:
  "px_stores src cn R G B i j (Suc n) =
     (j, or0 (pixel src R G B i)) # px_stores src cn R G B (i + cn) (j + 1) n"
proof -
  have "[0..<Suc n] = 0 # map Suc [0..<n]"
    by (simp add: upt_conv_Cons map_Suc_upt del: upt_Suc)
  then show ?thesis
    by (simp add: px_stores_def comp_def algebra_simps del: upt_Suc)
qed

lemma px_stores_append:
  "px_stores src cn R G B i j (a + b) =
     px_stores src cn R G B i j a @ px_stores src cn R G B (i + int a * cn) (j + int a) b"
proof (induction a arbitrary: i j)
  case 0
  show ?case by (simp add: px_stores_0)
next
  case (Suc a)
  show ?case
    using Suc.IH [of "i + cn" "j + 1"]
    by (simp add: px_stores_Suc algebra_simps)
qed

lemma px_stores_4:
  "px_stores src cn R G B i j 4 =
     [(j, or0 (pixel src R G B i)), (j + 1, or0 (pixel src R G B (i + cn))),
      (j + 2, or0 (pixel src R G B (i + cn * 2))), (j + 3, or0 (pixel src R G B (i + cn * 3)))]"
  by (simp add: eval_nat_numeral px_stores_Suc px_stores_0 algebra_simps)

lemma remainder_loop_eq:
  "remainder_loop src cn R G B rowEnd ws i j =
     (ws @ px_stores src cn R G B i j (nat (rowEnd - j)),
      i + int (nat (rowEnd - j)) * cn, j + int (nat (rowEnd - j)))"
proof (induction src cn R G B rowEnd ws i j rule: remainder_loop.induct)
  case (1 src cn R G B rowEnd ws i j)
  show ?case
  proof (cases "j < rowEnd")
    case False
    then show ?thesis
      by (simp add: remainder_loop.simps [of src cn R G B rowEnd ws i j] px_stores_0)
  next
    case True
    then have n: "nat (rowEnd - j) = Suc (nat (rowEnd - (j + 1)))"
      by simp
    show ?thesis
      using True "1.IH" [OF True]
      by (simp add: remainder_loop.simps [of src cn R G B rowEnd ws i j] n px_stores_Suc
          algebra_simps del: nat_diff_distrib)
  qed
qed

lemma blocks_step: "j \<le> limit \<Longrightarrow> blocks limit j = Suc (blocks limit (j + 4))"
  unfolding blocks_def by (auto simp add: nat_add_distrib) 

lemma unrolled_loop_eq:
  "unrolled_loop src cn R G B limit ws i j =
     (ws @ px_stores src cn R G B i j (4 * blocks limit j),
      i + int (4 * blocks limit j) * cn, j + int (4 * blocks limit j))"
proof (induction src cn R G B limit ws i j rule: unrolled_loop.induct)
  case (1 src cn R G B limit ws i j)
  show ?case
  proof (cases "j \<le> limit")
    case False
    then show ?thesis
      by (simp add: unrolled_loop.simps [of src cn R G B limit ws i j] px_stores_0 blocks_def)
  next
    case True
    have n: "4 * blocks limit j = 4 + 4 * blocks limit (j + 4)"
      by (simp add: blocks_step [OF True])
    have "unrolled_loop src cn R G B limit ws i j =
        unrolled_loop src cn R G B limit (ws @ px_stores src cn R G B i j 4) (i + cn * 4) (j + 4)"
      using True
      by (simp add: unrolled_loop.simps [of src cn R G B limit ws i j] px_stores_4 Let_def)
    also have "\<dots> = ((ws @ px_stores src cn R G B i j 4) @
          px_stores src cn R G B (i + cn * 4) (j + 4) (4 * blocks limit (j + 4)),
        (i + cn * 4) + int (4 * blocks limit (j + 4)) * cn,
        (j + 4) + int (4 * blocks limit (j + 4)))"
      using "1.IH" [OF True refl refl refl refl] by (simp add: px_stores_4)
    finally show ?thesis
      unfolding n px_stores_append [of src cn R G B i j 4]
      by (simp add: algebra_simps)
  qed
qed

lemma row_blocks: "blocks (j0 + (w - 4)) j0 = nat (w div 4)"
  unfolding blocks_def by auto

lemma row_count: "4 * nat (w div 4) + nat (w - int (4 * nat (w div 4))) = nat w"
  by auto

lemma row_stores:
  assumes "unrolled_loop src cn R G B (j0 + (w - 4)) ws i0 j0 = (ws1, i1, j1)"
    and "remainder_loop src cn R G B (j0 + w) ws1 i1 j1 = (ws2, i2, j2)"
  shows "ws2 = ws @ px_stores src cn R G B i0 j0 (nat w)"
proof -
  let ?a = "4 * nat (w div 4)"
  have u: "ws1 = ws @ px_stores src cn R G B i0 j0 ?a" "i1 = i0 + int ?a * cn" "j1 = j0 + int ?a"
    using assms(1) unfolding unrolled_loop_eq row_blocks by simp_all
  have "ws2 = ws1 @ px_stores src cn R G B i1 j1 (nat (j0 + w - j1))"
    using assms(2) unfolding remainder_loop_eq by simp
  also have "\<dots> = ws @ px_stores src cn R G B i0 j0 (?a + nat (w - int ?a))"
    unfolding px_stores_append u by simp
  finally show ?thesis
    unfolding row_count .
qed

lemma rows_loop_eq:
  "0 \<le> y \<Longrightarrow>
   rows_loop src w h cn R G B ws y =
     ws @ concat (map (\<lambda>r. px_stores src cn R G B (int r * w * cn) (int r * w) (nat w))
                      [nat y..<nat h])"
proof (induction src w h cn R G B ws y rule: rows_loop.induct)
  case (1 src w h cn R G B ws y)
  show ?case
  proof (cases "y < h")
    case False
    then have "[nat y..<nat h] = []" by simp
    with False show ?thesis
      by (simp add: rows_loop.simps [of src w h cn R G B ws y])
  next
    case True
    obtain ws1 i1 j1 where u: "unrolled_loop src cn R G B (y * w + (w - 4)) ws (y * w * cn) (y * w) = (ws1, i1, j1)"
      by (cases "unrolled_loop src cn R G B (y * w + (w - 4)) ws (y * w * cn) (y * w)") auto
    obtain ws2 i2 j2 where r: "remainder_loop src cn R G B (y * w + w) ws1 i1 j1 = (ws2, i2, j2)"
      by (cases "remainder_loop src cn R G B (y * w + w) ws1 i1 j1") auto
    have ws2: "ws2 = ws @ px_stores src cn R G B (y * w * cn) (y * w) (nat w)"
      using u r by (rule row_stores)
    have up: "[nat y..<nat h] = nat y # [nat (y + 1)..<nat h]"
      using True "1.prems" by (simp add: upt_conv_Cons nat_add_distrib)
    have "rows_loop src w h cn R G B ws y = rows_loop src w h cn R G B ws2 (y + 1)"
      using True u r by (simp add: rows_loop.simps [of src w h cn R G B ws y] Let_def)
    also have "\<dots> = ws2 @ concat (map (\<lambda>r. px_stores src cn R G B (int r * w * cn) (int r * w) (nat w))
                      [nat (y + 1)..<nat h])"
      using "1.prems" 
      by (intro "1.IH" [OF True refl refl refl refl u [symmetric] refl refl r [symmetric] refl]) simp
    finally show ?thesis
      using "1.prems" by (simp add: up ws2)
  qed
qed

lemma px_stores_row:
  "px_stores src cn R G B (int r * w * cn) (int r * w) (nat w) =
     map (\<lambda>x. (int r * w + int x, or0 (pixel src R G B ((int r * w + int x) * cn)))) [0..<nat w]"
  by (simp add: px_stores_def algebra_simps)

lemma grayscale_stores_reference:
  "grayscale_stores src w h code = reference_stores src w h code"
  by (simp add: grayscale_stores_def reference_stores_def rows_loop_eq px_stores_row
      split: prod.splits)

lemma row_major_upt:
  "concat (map (\<lambda>y. map (\<lambda>x. y * n + x) [0..<n]) [0..<m]) = [0..<m * n]"
proof (induction m)
  case 0
  show ?case by simp
next
  case (Suc m)
  have a: "map (\<lambda>x. m * n + x) [0..<n] = [m * n..<m * n + n]"
    using map_add_upt [of "m * n" n] by (simp add: add.commute)
  have b: "[0..<m * n + n] = [0..<m * n] @ [m * n..<m * n + n]"
    by (rule upt_add_eq_append) simp
  have "concat (map (\<lambda>y. map (\<lambda>x. y * n + x) [0..<n]) [0..<Suc m])
      = concat (map (\<lambda>y. map (\<lambda>x. y * n + x) [0..<n]) [0..<m]) @ map (\<lambda>x. m * n + x) [0..<n]"
    by simp
  also have "\<dots> = [0..<m * n + n]"
    unfolding Suc.IH a b ..
  finally show ?case
    by (simp add: add.commute)
qed

lemma reference_stores_order:
  "map fst (reference_stores src w h code) = map int [0..<nat h * nat w]"
proof -
  have "map fst (reference_stores src w h code)
      = concat (map (\<lambda>y. map (\<lambda>x. int y * w + int x) [0..<nat w]) [0..<nat h])"
    by (simp add: reference_stores_def map_concat comp_def split: prod.splits)
  also have "\<dots> = concat (map (\<lambda>y. map (\<lambda>x. int (y * nat w + x)) [0..<nat w]) [0..<nat h])"
  proof (cases "0 \<le> w")
    case True
    then show ?thesis by simp
  next
    case False
    then show ?thesis by simp
  qed
  also have "\<dots> = map int (concat (map (\<lambda>y. map (\<lambda>x. y * nat w + x) [0..<nat w]) [0..<nat h]))"
    by (simp add: map_concat comp_def)
  finally show ?thesis
    by (simp add: row_major_upt)
qed

text \<open>
  C7. For every width, height, format code and source, the unrolled loop with its remainder
  loop makes exactly the stores of the reference that handles one pixel at a time, so both
  leave the same destination; the stores go to the indices \<open>0, 1, 2, \<dots>\<close> in this order, that
  is left to right and top to bottom.
\<close>

theorem C7_unrolled_equals_reference:
  "grayscale_stores src w h code = reference_stores src w h code
   \<and> grayscale src w h dst code hp = grayscale_reference src w h dst code hp
   \<and> map fst (grayscale_stores src w h code) = map int [0..<nat h * nat w]"
proof -
  have "grayscale src w h dst code hp = grayscale_reference src w h dst code hp"
    unfolding grayscale_def grayscale_reference_def grayscale_stores_reference ..
  then show ?thesis
    by (simp add: grayscale_stores_reference reference_stores_order)
qed

section \<open>The solid 8 x 2 image\<close>

lemma lum_200_100_50: "or0 (lum (Some 200) (Some 100) (Some 50)) = 124"
  by code_simp

lemma nth_concat_replicate:
  "k < n \<Longrightarrow> i < length xs \<Longrightarrow> concat (replicate n xs) ! (length xs * k + i) = xs ! i"
proof (induction n arbitrary: k)
  case 0
  then show ?case by simp
next
  case (Suc n)
  show ?case
  proof (cases k)
    case 0
    with Suc.prems show ?thesis by (simp add: nth_append)
  next
    case (Suc k')
    then have "k' < n" using Suc.prems by simp
    from Suc.IH [OF this Suc.prems(2)] Suc show ?thesis
      by (simp add: nth_append)
  qed
qed

lemma src_at_solid:
  assumes "p < n" "c < 4"
  shows "src_at (concat (replicate n [r, g, b, a])) (int p * 4 + int c) = Some ([r, g, b, a] ! c)"
proof -
  have len: "length (concat (replicate n [r, g, b, a])) = 4 * n"
    by (induction n) simp_all
  have idx: "nat (int p * 4 + int c) = length [r, g, b, a] * p + c"
    by (simp add: nat_add_distrib nat_mult_distrib)
  have "concat (replicate n [r, g, b, a]) ! nat (int p * 4 + int c) = [r, g, b, a] ! c"
    unfolding idx using assms by (intro nth_concat_replicate) simp_all
  moreover have "int p * 4 + int c < int (4 * n)"
    using assms by simp
  ultimately show ?thesis
    unfolding src_at_def len by simp
qed

lemma pixel_solid:
  assumes "p < n"
  shows "pixel (concat (replicate n [r, g, b, a])) 0 1 2 (int p * 4) = lum (Some r) (Some g) (Some b)"
  using src_at_solid [OF assms, of 0 r g b a] src_at_solid [OF assms, of 1 r g b a]
    src_at_solid [OF assms, of 2 r g b a]
  by (simp add: pixel_def)

lemma row_major_map:
  "concat (map (\<lambda>y. map (\<lambda>x. f (y * n + x)) [0..<n]) [0..<m]) = map f [0..<m * n]"
proof -
  have "map f (concat (map (\<lambda>y. map (\<lambda>x. y * n + x) [0..<n]) [0..<m])) = map f [0..<m * n]"
    by (simp only: row_major_upt)
  then show ?thesis
    by (simp add: map_concat comp_def)
qed

lemma decode_RGBA: "decode_layout RGBA2GRAY = (4, 0, 1, 2)"
  by (simp add: decode_layout_def RGBA2GRAY_def BGRA2GRAY_def BGR2GRAY_def RGB2GRAY_def)

lemma solid_image_stores:
  "grayscale_stores (concat (replicate (H * W) [r, g, b, a])) (int W) (int H) RGBA2GRAY =
     map (\<lambda>j. (int j, or0 (lum (Some r) (Some g) (Some b)))) [0..<H * W]"
proof -
  let ?src = "concat (replicate (H * W) [r, g, b, a])"
  let ?F = "\<lambda>p. (int p, or0 (pixel ?src 0 1 2 (int p * 4)))"
  have "reference_stores ?src (int W) (int H) RGBA2GRAY =
      concat (map (\<lambda>y. map (\<lambda>x. ?F (y * W + x)) [0..<W]) [0..<H])"
    by (simp add: reference_stores_def decode_RGBA)
  also have "\<dots> = map ?F [0..<H * W]"
    by (rule row_major_map)
  also have "\<dots> = map (\<lambda>j. (int j, or0 (lum (Some r) (Some g) (Some b)))) [0..<H * W]"
    by (rule map_cong) (simp_all add: pixel_solid)
  finally show ?thesis
    by (simp only: grayscale_stores_reference)
qed

lemma upt_16: "[0..<16] = [0, 1, 2, 3, 4, 5, 6, 7, 8, 9, 10, 11, 12, 13, 14, 15]"
  by code_simp

lemma stores_8x2:
  "grayscale_stores (concat (replicate 16 [200, 100, 50, 255])) 8 2 RGBA2GRAY =
   [(0, 124), (1, 124), (2, 124), (3, 124), (4, 124), (5, 124), (6, 124), (7, 124),
    (8, 124), (9, 124), (10, 124), (11, 124), (12, 124), (13, 124), (14, 124), (15, 124)]"
  using solid_image_stores [of 2 8 200 100 50 255]
  unfolding lum_200_100_50 by (simp add: upt_16)

lemma apply_8x2: "apply_stores (Some \<lparr>ta_kind = U8view, ta_buffer = 0\<rparr>) 
   [(0, 124), (1, 124), (2, 124), (3, 124), (4, 124), (5, 124), (6, 124), (7, 124),
    (8, 124), (9, 124), (10, 124), (11, 124), (12, 124), (13, 124), (14, 124), (15, 124)]
     \<lparr>abufs = [replicate 16 0], datas = [fresh_data 16 0],
       mats = [\<lparr>m_cols = 8, m_rows = 2, m_type = 256, m_channels = 1, m_buffer = Some 0,
                m_data = Some \<lparr>ta_kind = U8view, ta_buffer = 0\<rparr>\<rparr>], nodes = []\<rparr>
   = (Returns (),
      \<lparr>abufs = [replicate 16 124], datas = [fresh_data 16 0],
       mats = [\<lparr>m_cols = 8, m_rows = 2, m_type = 256, m_channels = 1, m_buffer = Some 0,
                m_data = Some \<lparr>ta_kind = U8view, ta_buffer = 0\<rparr>\<rparr>], nodes = []\<rparr>)"
  by code_simp

text \<open>
  C3 (amended). For the 8 x 2 RGBA source whose every pixel is (200, 100, 50, 255) the
  conversion stores 124, which is \<open>\<lfloor>0.299 * 200 + 0.587 * 100 + 0.114 * 50\<rfloor> = \<lfloor>124.2\<rfloor>\<close>, at each
  of the destination indices 0 to 15; on a fresh 8 x 2 byte matrix all 16 bytes become 124.
\<close>

theorem C3_solid_8x2_gives_124:
  "grayscale_stores (concat (replicate 16 [200, 100, 50, 255])) 8 2 RGBA2GRAY =
     map (\<lambda>j. (int j, 124)) [0..<16]
   \<and> grayscale (concat (replicate 16 [200, 100, 50, 255])) 8 2 0 RGBA2GRAY
     \<lparr>abufs = [replicate 16 0], datas = [fresh_data 16 0],
       mats = [\<lparr>m_cols = 8, m_rows = 2, m_type = 256, m_channels = 1, m_buffer = Some 0,
                m_data = Some \<lparr>ta_kind = U8view, ta_buffer = 0\<rparr>\<rparr>], nodes = []\<rparr>
   = (Returns (),
      \<lparr>abufs = [replicate 16 124], datas = [fresh_data 16 0],
       mats = [\<lparr>m_cols = 8, m_rows = 2, m_type = 256, m_channels = 1, m_buffer = Some 0,
                m_data = Some \<lparr>ta_kind = U8view, ta_buffer = 0\<rparr>\<rparr>], nodes = []\<rparr>)"
proof -
  let ?m = "\<lparr>m_cols = 8, m_rows = 2, m_type = 256, m_channels = 1, m_buffer = Some 0,
                m_data = Some \<lparr>ta_kind = U8view, ta_buffer = 0\<rparr>\<rparr>"
  let ?h = "\<lparr>abufs = [replicate 16 0], datas = [fresh_data 16 0], mats = [?m], nodes = []\<rparr>"
  have m: "lookup (mats ?h) 0 = Some ?m" and b: "m_buffer ?m = Some 0"
    and d: "lookup (datas ?h) 0 = Some (fresh_data 16 0)"
    by (simp_all add: lookup_def)
  have ty: "getDataTypeSize (m_type ?m) = Some 1"
    by (simp add: getDataTypeSize_def DataType_U8_def)
  have fit: "8 * 2 * Channels_C1 * 1 \<le> d_size (fresh_data 16 0)"
    by (simp add: Channels_C1_def fresh_data_def)
  have rs: "Matrix_resize 0 8 2 (Some Channels_C1) ?h = (Returns (), ?h)"
    unfolding Matrix_resize_fits [OF m b d ty fit] by (simp add: Channels_C1_def)
  have "grayscale (concat (replicate 16 [200, 100, 50, 255])) 8 2 0 RGBA2GRAY ?h =
      apply_stores (m_data ?m) (grayscale_stores (concat (replicate 16 [200, 100, 50, 255])) 8 2 RGBA2GRAY) ?h"
    unfolding grayscale_def rs using m by simp
  then show ?thesis
    unfolding stores_8x2 using apply_8x2 by (simp add: upt_16)
qed

text \<open>C3 as stated fails: the values stored are not 69.\<close>

theorem C3_not_69_counterexample:
  "map snd (grayscale_stores (concat (replicate 16 [200, 100, 50, 255])) 8 2 RGBA2GRAY)
     \<noteq> replicate 16 69"
  unfolding stores_8x2 by (simp add: eval_nat_numeral)

section \<open>Unrecognised codes\<close>

lemma decode_layout_unknown:
  assumes "code \<notin> {RGBA2GRAY, RGB2GRAY, BGRA2GRAY, BGR2GRAY}"
  shows "decode_layout code = decode_layout RGBA2GRAY"
  using assms
  by (simp add: decode_layout_def RGBA2GRAY_def BGRA2GRAY_def BGR2GRAY_def RGB2GRAY_def)

lemma Matrix_new_unknown_type:
  assumes "getDataTypeSize (getDataType t) = None"
  shows "Matrix_new c r t None h =
     (Returns (length (mats h)),
      h\<lparr>abufs := abufs h @ [[]],
        datas := datas h @ [fresh_data 0 (length (abufs h))],
        mats := mats h @ [(new_matrix c r t)\<lparr>m_buffer := Some (length (datas h)),
                                             m_data := None\<rparr>]\<rparr>)"
proof -
  have ty: "m_type (new_matrix c r t) = getDataType t"
    by (simp add: new_matrix_def)
  have mb: "matrix_bytes (new_matrix c r t) = NaN"
    by (simp add: matrix_bytes_def ty assms)
  show ?thesis
    unfolding Matrix_new_None Let_def mb align8_NaN ty view_for_unknown [OF assms]
    by simp
qed

text \<open>
  C5 (amended). No code is rejected. A type code whose type bits are not one of the five
  \<open>DataType\<close> values gives a matrix without error: \<open>data\<close> is \<open>undefined\<close> and the buffer is a
  new one of size 0. A conversion code other than the four \<open>ColorConversion\<close> values is
  treated exactly as \<open>RGBA2GRAY\<close>.
\<close>

theorem C5_unrecognised_codes_are_not_rejected:
  assumes "getDataTypeSize (getDataType t) = None"
    and "code \<notin> {RGBA2GRAY, RGB2GRAY, BGRA2GRAY, BGR2GRAY}"
  shows "Matrix_new c r t None h =
           (Returns (length (mats h)),
            h\<lparr>abufs := abufs h @ [[]],
              datas := datas h @ [fresh_data 0 (length (abufs h))],
              mats := mats h @ [(new_matrix c r t)\<lparr>m_buffer := Some (length (datas h)),
                                                   m_data := None\<rparr>]\<rparr>)
         \<and> grayscale src w ht dst code hp = grayscale src w ht dst RGBA2GRAY hp"
proof -
  have st: "grayscale_stores src w ht code = grayscale_stores src w ht RGBA2GRAY"
    unfolding grayscale_stores_def decode_layout_unknown [OF assms(2)] ..
  have "grayscale src w ht dst code hp = grayscale src w ht dst RGBA2GRAY hp"
    unfolding grayscale_def st ..
  then show ?thesis
    using Matrix_new_unknown_type [OF assms(1)] by simp
qed

lemma type_0x2001: "getDataTypeSize (getDataType 8193) = None"
  by (simp add: getDataType_def js_and_def to_int32_def getDataTypeSize_def DataType_U8_def
      DataType_S32_def DataType_F32_def DataType_S64_def DataType_F64_def)

lemma code_7: "7 \<notin> {RGBA2GRAY, RGB2GRAY, BGRA2GRAY, BGR2GRAY}"
  by (simp add: RGBA2GRAY_def BGRA2GRAY_def BGR2GRAY_def RGB2GRAY_def)

lemma stores_1x1: "grayscale_stores [200, 100, 50, 255] 1 1 RGBA2GRAY = [(0, 124)]"
  using solid_image_stores [of 1 1 200 100 50 255]
  unfolding lum_200_100_50 by simp

text \<open>The type code \<open>0x2001\<close> and the conversion code 7.\<close>

theorem C5_unrecognised_codes_are_not_rejected_witness:
  "getDataTypeSize (getDataType 8193) = None
   \<and> 7 \<notin> {RGBA2GRAY, RGB2GRAY, BGRA2GRAY, BGR2GRAY}
   \<and> Matrix_new 2 2 8193 None empty_heap =
       (Returns 0,
        \<lparr>abufs = [[]], datas = [fresh_data 0 0],
          mats = [\<lparr>m_cols = 2, m_rows = 2, m_type = 8192, m_channels = 1,
                   m_buffer = Some 0, m_data = None\<rparr>], nodes = []\<rparr>)
   \<and> grayscale [200, 100, 50, 255] 1 1 0 7 (snd (Matrix_new 1 1 257 None empty_heap))
       = grayscale [200, 100, 50, 255] 1 1 0 RGBA2GRAY (snd (Matrix_new 1 1 257 None empty_heap))"
proof -
  have nm: "new_matrix 2 2 8193 = \<lparr>m_cols = 2, m_rows = 2, m_type = 8192, m_channels = 1,
                   m_buffer = None, m_data = None\<rparr>"
    by (simp add: new_matrix_def getDataType_def getChannel_def js_and_def to_int32_def)
  show ?thesis
    using C5_unrecognised_codes_are_not_rejected [OF type_0x2001 code_7,
        of 2 2 empty_heap "[200, 100, 50, 255]" 1 1 0 "snd (Matrix_new 1 1 257 None empty_heap)"]
      type_0x2001 code_7
    by (simp add: nm empty_heap_def)
qed

text \<open>C5 as stated fails: the construction with type code \<open>0x2001\<close> returns, and the
  conversion with code 7 stores what \<open>RGBA2GRAY\<close> stores.\<close>

theorem C5_no_decode_error_counterexample:
  "getDataTypeSize (getDataType 8193) = None
   \<and> fst (Matrix_new 2 2 8193 None empty_heap) = Returns 0
   \<and> 7 \<notin> {RGBA2GRAY, RGB2GRAY, BGRA2GRAY, BGR2GRAY}
   \<and> grayscale_stores [200, 100, 50, 255] 1 1 7 = [(0, 124)]
   \<and> grayscale_stores [200, 100, 50, 255] 1 1 RGBA2GRAY = [(0, 124)]"
proof -
  have "grayscale_stores [200, 100, 50, 255] 1 1 7 = grayscale_stores [200, 100, 50, 255] 1 1 RGBA2GRAY"
    unfolding grayscale_stores_def decode_layout_unknown [OF code_7] ..
  then show ?thesis
    using type_0x2001 code_7 Matrix_new_unknown_type [OF type_0x2001, of 2 2 empty_heap]
    by (simp add: stores_1x1 empty_heap_def)
qed

text \<open>The three weights are the doubles \<open>0x1.322d0e5604189p-2\<close>, \<open>0x1.2c8b439581062p-1\<close> and
  \<open>0x1.d2f1a9fbe76c9p-4\<close>.\<close>

lemma double_literals:
  "WR = 5386305154335113 / 2 ^ 54" "WG = 2643612981266481 / 2 ^ 52" "WB = 8214565720323785 / 2 ^ 56"
  by code_simp+


section \<open>No operation changes a \<open>Data\<close> object\<close>

text \<open>The constructor is the only place that writes \<open>size\<close>: every method of \<open>Matrix\<close>,
  \<open>PoolNode\<close> and \<open>Cache\<close> and the grayscale conversion leave the \<open>Data\<close> objects that exist
  as they are, and at most add new ones.\<close>

lemma datas_kept_refl: "datas_kept h h"
  by (simp add: datas_kept_def)

lemma datas_keptI: "datas h' = datas h @ xs \<Longrightarrow> datas_kept h h'"
  by (simp add: datas_kept_def)

lemma datas_kept_same: "datas h' = datas h \<Longrightarrow> datas_kept h h'"
  by (simp add: datas_kept_def)

lemma Data_new_keeps: "datas_kept h (snd (Data_new n existing h))"
proof (cases existing)
  case None
  then show ?thesis by (simp add: Data_new_None datas_kept_def)
next
  case (Some ab)
  then show ?thesis
    by (simp add: Data_new_Some datas_kept_def split: option.splits)
qed

lemma Matrix_allocate_keeps: "datas_kept h (snd (Matrix_allocate a h))"
proof (cases "lookup (mats h) a")
  case None
  then show ?thesis by (simp add: Matrix_allocate_def datas_kept_def)
next
  case (Some m)
  show ?thesis
    by (simp add: Matrix_allocate_eq [OF Some] Let_def datas_kept_def)
qed

lemma Matrix_resize_keeps: "datas_kept h (snd (Matrix_resize a c r cho h))"
proof -
  have "datas_kept (h\<lparr>mats := ms\<rparr>) (snd (Matrix_allocate a (h\<lparr>mats := ms\<rparr>)))" for ms
    by (rule Matrix_allocate_keeps)
  then have k: "datas_kept h (snd (Matrix_allocate a (h\<lparr>mats := ms\<rparr>)))" for ms
    by (simp add: datas_kept_def)
  show ?thesis
    unfolding Matrix_resize_def Let_def
    by (auto simp add: k [unfolded datas_kept_def] datas_kept_def split: option.splits)
qed

lemma ta_set_u8_datas: "datas (ta_set_u8 ta i v h) = datas h"
  by (simp add: ta_set_u8_def split: option.splits)

lemma apply_stores_datas: "datas (snd (apply_stores v ws h)) = datas h"
  by (induction v ws h rule: apply_stores.induct)
     (simp_all add: ta_set_u8_datas split: option.splits)

lemma grayscale_keeps: "datas_kept hp (snd (grayscale src w h dst code hp))"
proof (cases "Matrix_resize dst w h (Some Channels_C1) hp")
  case (Pair r hp1)
  have k: "datas_kept hp hp1"
    using Matrix_resize_keeps [of hp dst w h "Some Channels_C1"] Pair by simp
  show ?thesis
  proof (cases r)
    case (Throws e)
    with Pair k show ?thesis by (simp add: grayscale_def)
  next
    case (Returns u)
    with Pair k show ?thesis
      by (simp add: grayscale_def datas_kept_def apply_stores_datas split: option.splits)
  qed
qed

lemma PoolNode_resize_keeps: "datas_kept h (snd (PoolNode_resize a n h))"
  unfolding PoolNode_resize_def
  using Data_new_keeps [of h "Num n" None]
  by (auto simp add: datas_kept_def split: prod.splits outcome.splits option.splits)

lemma Cache_get_buffer_keeps: "datas_kept h (snd (snd (Cache_get_buffer n c h)))"
proof -
  have k: "take (length (datas h)) (datas h') = datas h" if "PoolNode_resize a n h = (r, h')" for a r h'
    using PoolNode_resize_keeps [of h a n] that by (simp add: datas_kept_def)
  show ?thesis
    unfolding Cache_get_buffer_def Let_def
    by (auto simp add: datas_kept_def k split: prod.splits outcome.splits option.splits)
qed

lemma set_next_datas: "datas (snd (set_next x v h)) = datas h"
  by (simp add: set_next_def split: option.splits)

lemma Cache_put_buffer_keeps: "datas_kept h (snd (snd (Cache_put_buffer node c h)))"
proof -
  have k: "datas h' = datas h0" if "set_next x v h0 = (r, h')" for x v h0 r h'
    using set_next_datas [of x v h0] that by simp
  have "datas (snd (snd (Cache_put_buffer node c h))) = datas h"
    unfolding Cache_put_buffer_def Let_def
    by (auto split: prod.splits outcome.splits dest!: k)
  then show ?thesis by (rule datas_kept_same)
qed

lemma Cache_get_buffer_in_range:
  assumes "c_head c = Some a" "lookup (nodes h) a = Some nd"
    and "0 \<le> n_size nd" "n \<le> 2 ^ 31 - 8"
  shows "fst (Cache_get_buffer n c h) = Returns a"
    and "fst (snd (Cache_get_buffer n c h)) = c\<lparr>c_head := n_next nd\<rparr>"
    and "n \<le> n_size nd \<Longrightarrow> snd (snd (Cache_get_buffer n c h)) = h"
    and "n_size nd < n \<Longrightarrow>
         (\<exists>nd'. lookup (nodes (snd (snd (Cache_get_buffer n c h)))) a = Some nd' \<and>
                n \<le> n_size nd' \<and> n_size nd < n_size nd' \<and> n_data nd' = length (datas h))"
proof -
  have big: "n_size nd < n \<Longrightarrow> n \<le> align8 (Num n) \<and> \<not> align8 (Num n) < 0"
    using Data_new_in_range(4) [of n] assms(3,4) by simp
  have a: "a < length (nodes h)"
    using assms(2) by (simp add: lookup_Some_iff)
  show "fst (Cache_get_buffer n c h) = Returns a"
    and "fst (snd (Cache_get_buffer n c h)) = c\<lparr>c_head := n_next nd\<rparr>"
    and "n \<le> n_size nd \<Longrightarrow> snd (snd (Cache_get_buffer n c h)) = h"
    using big by (auto simp add: Cache_get_buffer_eq [OF assms(1,2)])
  show "n_size nd < n \<Longrightarrow>
         (\<exists>nd'. lookup (nodes (snd (snd (Cache_get_buffer n c h)))) a = Some nd' \<and>
                n \<le> n_size nd' \<and> n_size nd < n_size nd' \<and> n_data nd' = length (datas h))"
    using big a by (auto simp add: Cache_get_buffer_eq [OF assms(1,2)] lookup_update)
qed


lemma Matrix_new_keeps: "datas_kept h (snd (Matrix_new c r t existing h))"
proof (cases existing)
  case None
  then show ?thesis
    by (simp add: Matrix_new_None Let_def datas_kept_def)
next
  case (Some b)
  then show ?thesis
    unfolding Matrix_new_def Let_def
    by (simp add: datas_kept_def split: outcome.splits)
qed

lemma copy_elem_datas: "datas (snd (copy_elem src dst i h)) = datas h"
  by (simp add: copy_elem_def ta_set_u8_datas split: option.splits)

lemma copy_loop_datas: "datas (snd (copy_loop src dst n i h)) = datas h"
proof (induction src dst n i h rule: copy_loop.induct)
  case (1 src dst n i h)
  show ?case
  proof (cases "i < n")
    case False
    then show ?thesis by (simp add: copy_loop.simps [of src dst n i h])
  next
    case True
    show ?thesis
    proof (cases "copy_elem src dst i h")
      case (Pair r h1)
      have h1: "datas h1 = datas h"
        using copy_elem_datas [of src dst i h] Pair by simp
      show ?thesis
      proof (cases r)
        case (Throws e)
        with Pair True h1 show ?thesis
          by (simp add: copy_loop.simps [of src dst n i h])
      next
        case (Returns u)
        have pr: "(Returns (), h1) = copy_elem src dst i h"
          unfolding Pair Returns by simp
        have "datas (snd (copy_loop src dst n (i + 1) h1)) = datas h1"
          by (rule "1.IH" [OF True pr refl])
        with Pair Returns True h1 show ?thesis
          by (simp add: copy_loop.simps [of src dst n i h])
      qed
    qed
  qed
qed

lemma Matrix_copyTo_keeps: "datas_kept h (snd (Matrix_copyTo this other h))"
  unfolding Matrix_copyTo_def
  by (simp add: datas_kept_def copy_loop_datas split: option.splits)

lemma PoolNode_new_keeps: "datas_kept h (snd (PoolNode_new n h))"
  by (simp add: PoolNode_new_eq datas_kept_def)

lemma datas_kept_iff: "datas_kept h h' \<longleftrightarrow> (\<exists>xs. datas h' = datas h @ xs)"
proof
  assume "datas_kept h h'"
  then have "datas h' = datas h @ drop (length (datas h)) (datas h')"
    unfolding datas_kept_def by (metis append_take_drop_id)
  then show "\<exists>xs. datas h' = datas h @ xs" ..
next
  assume "\<exists>xs. datas h' = datas h @ xs"
  then show "datas_kept h h'"
    by (auto simp add: datas_kept_def)
qed

lemma datas_kept_trans: "datas_kept h h1 \<Longrightarrow> datas_kept h1 h2 \<Longrightarrow> datas_kept h h2"
  by (auto simp add: datas_kept_iff)

lemma allocate_loop_keeps: "datas_kept h (snd (snd (allocate_loop capacity n i c h)))"
proof (induction capacity n i c h rule: allocate_loop.induct)
  case (1 capacity n i c h)
  show ?case
  proof (cases "i < capacity")
    case False
    then show ?thesis
      by (simp add: allocate_loop.simps [of capacity n i c h] datas_kept_refl)
  next
    case True
    show ?thesis
    proof (cases "PoolNode_new n h")
      case (Pair r h1)
      have k1: "datas_kept h h1"
        using PoolNode_new_keeps [of h n] Pair by simp
      show ?thesis
      proof (cases r)
        case (Throws e)
        with Pair True k1 show ?thesis
          by (simp add: allocate_loop.simps [of capacity n i c h])
      next
        case (Returns nxt)
        have p1: "(Returns nxt, h1) = PoolNode_new n h"
          unfolding Pair Returns ..
        show ?thesis
        proof (cases "set_next (c_tail c) (Some nxt) h1")
          case (Pair r2 h2)
          have k2: "datas_kept h h2"
            using set_next_datas [of "c_tail c" "Some nxt" h1] Pair k1
            by (simp add: datas_kept_def)
          show ?thesis
          proof (cases r2)
            case (Throws e)
            with Pair \<open>PoolNode_new n h = (r, h1)\<close> Returns True k2 show ?thesis
              by (simp add: allocate_loop.simps [of capacity n i c h])
          next
            case (Returns u)
            have p2: "(Returns (), h2) = set_next (c_tail c) (Some nxt) h1"
              unfolding Pair Returns by simp
            have "datas_kept h2
                (snd (snd (allocate_loop capacity n (i + 1) (c\<lparr>c_tail := Some nxt\<rparr>) h2)))"
              by (rule "1.IH" [OF True p1 refl p2 refl])
            with k2 have "datas_kept h
                (snd (snd (allocate_loop capacity n (i + 1) (c\<lparr>c_tail := Some nxt\<rparr>) h2)))"
              by (rule datas_kept_trans)
            with Pair \<open>PoolNode_new n h = (r, h1)\<close> \<open>r = Returns nxt\<close> Returns True show ?thesis
              by (simp add: allocate_loop.simps [of capacity n i c h])
          qed
        qed
      qed
    qed
  qed
qed

lemma Cache_allocate_keeps: "datas_kept h (snd (snd (Cache_allocate capacity n c h)))"
proof (cases "PoolNode_new n h")
  case (Pair r h1)
  have k1: "datas_kept h h1"
    using PoolNode_new_keeps [of h n] Pair by simp
  show ?thesis
  proof (cases r)
    case (Throws e)
    with Pair k1 show ?thesis by (simp add: Cache_allocate_def)
  next
    case (Returns node)
    have "datas_kept h1 (snd (snd (allocate_loop capacity n 0
        (c\<lparr>c_head := Some node, c_tail := Some node\<rparr>) h1)))"
      by (rule allocate_loop_keeps)
    with k1 have "datas_kept h (snd (snd (allocate_loop capacity n 0
        (c\<lparr>c_head := Some node, c_tail := Some node\<rparr>) h1)))"
      by (rule datas_kept_trans)
    with Pair Returns show ?thesis by (simp add: Cache_allocate_def)
  qed
qed

section \<open>The rounding of the double model\<close>

text \<open>\<open>flog2\<close> is the binary exponent, and \<open>round_double x\<close> has a significand of 53 bits
  and is within half a unit in the last place of \<open>x\<close>; the three literals are within half a
  unit in the last place of their decimal values.\<close>

lemma scale2_powi: "scale2 x e = x * 2 powi e"
  by (simp add: scale2_def power_int_def field_simps)

lemma bitlen_pos_bounds:
  assumes "0 < (p::int)"
  shows "2 powi (bitlen p - 1) \<le> (of_int p :: rat)" "(of_int p :: rat) < 2 powi (bitlen p)"
proof -
  have b: "2 ^ nat (bitlen p - 1) \<le> p" "p < 2 ^ nat (bitlen p)"
    using bitlen_bounds [OF assms] by simp_all
  have pos: "0 < bitlen p"
  proof (rule ccontr)
    assume "\<not> 0 < bitlen p"
    then have "nat (bitlen p) = 0" by simp
    with b(2) have "p < 1" by simp
    with assms show False by simp
  qed
  have "(of_int (2 ^ nat (bitlen p - 1)) :: rat) \<le> of_int p"
    using b(1) by (simp only: of_int_le_iff)
  then show "2 powi (bitlen p - 1) \<le> (of_int p :: rat)"
    using pos by (simp add: power_int_def)
  have "(of_int p :: rat) < of_int (2 ^ nat (bitlen p))"
    using b(2) by (simp only: of_int_less_iff)
  then show "(of_int p :: rat) < 2 powi (bitlen p)"
    using pos by (simp add: power_int_def)
qed

lemma flog2_bounds:
  assumes "0 < x"
  shows "2 powi (flog2 x) \<le> x" "x < 2 powi (flog2 x + 1)"
proof -
  obtain p q where pq: "quotient_of x = (p, q)"
    by (cases "quotient_of x") auto
  have q: "0 < q" and x: "x = of_int p / of_int q"
    using pq quotient_of_denom_pos [OF pq] quotient_of_div [OF pq] by simp_all
  have p: "0 < p"
    using assms q unfolding x by (simp add: zero_less_divide_iff)
  let ?d = "bitlen p - bitlen q"
  have lo: "2 powi (?d - 1) < x"
  proof -
    have "2 powi (?d - 1) * (of_int q :: rat) < 2 powi (?d - 1) * 2 powi (bitlen q)"
      using bitlen_pos_bounds(2) [OF q] by simp
    also have "\<dots> = 2 powi (bitlen p - 1)"
      by (simp add: power_int_add [symmetric])
    also have "\<dots> \<le> of_int p"
      by (rule bitlen_pos_bounds(1) [OF p])
    finally show ?thesis
      using q unfolding x by (simp add: pos_less_divide_eq)
  qed
  have hi: "x < 2 powi (?d + 1)"
  proof -
    have "(of_int p :: rat) < 2 powi (bitlen p)"
      by (rule bitlen_pos_bounds(2) [OF p])
    also have "\<dots> = 2 powi (?d + 1) * 2 powi (bitlen q - 1)"
      by (simp add: power_int_add [symmetric])
    also have "\<dots> \<le> 2 powi (?d + 1) * of_int q"
      using bitlen_pos_bounds(1) [OF q] by simp
    finally show ?thesis
      using q unfolding x by (simp add: pos_divide_less_eq)
  qed
  have f: "flog2 x = (if 2 powi ?d \<le> x then ?d else ?d - 1)"
    unfolding flog2_def pq scale2_powi
    by (simp add: Let_def power_int_minus field_simps)
  show "2 powi (flog2 x) \<le> x" "x < 2 powi (flog2 x + 1)"
    using lo hi unfolding f by (auto simp add: not_le)
qed

lemma round_half_even_error: "\<bar>of_int (round_half_even r) - r\<bar> \<le> 1 / 2"
proof -
  have "of_int \<lfloor>r\<rfloor> \<le> r" "r < of_int \<lfloor>r\<rfloor> + 1"
    by linarith+
  then show ?thesis
    by (auto simp add: round_half_even_def Let_def abs_le_iff)
qed

lemma round_double_error:
  assumes "0 < x"
  shows "\<bar>round_double x - x\<bar> \<le> 2 powi (flog2 x - 53)"
    and "\<exists>m. round_double x = of_int m * 2 powi (flog2 x - 52) \<and> 2 ^ 52 \<le> m \<and> m \<le> 2 ^ 53"
proof -
  let ?e = "flog2 x - 52"
  let ?s = "x * 2 powi (- ?e)"
  let ?m = "round_half_even ?s"
  have x: "\<bar>x\<bar> = x" "x \<noteq> 0"
    using assms by simp_all
  have rd: "round_double x = of_int ?m * 2 powi ?e"
    unfolding round_double_def Let_def x scale2_powi using x(2) by simp
  have pp: "(2::rat) powi ?e * 2 powi (- ?e) = 1"
    by (simp add: power_int_add [symmetric])
  have "\<bar>of_int ?m - ?s\<bar> \<le> 1 / 2"
    by (rule round_half_even_error)
  then have A: "\<bar>of_int ?m - ?s\<bar> * 2 powi ?e \<le> 1 / 2 * 2 powi ?e"
    by (intro mult_right_mono) simp_all
  have B: "\<bar>of_int ?m - ?s\<bar> * 2 powi ?e = \<bar>of_int ?m * 2 powi ?e - x\<bar>"
  proof -
    have "\<bar>of_int ?m - ?s\<bar> * 2 powi ?e = \<bar>(of_int ?m - ?s) * 2 powi ?e\<bar>"
      by (simp add: abs_mult)
    also have "(of_int ?m - ?s) * 2 powi ?e = of_int ?m * 2 powi ?e - x * (2 powi ?e * 2 powi (- ?e))"
      by (simp add: algebra_simps)
    finally show ?thesis unfolding pp by simp
  qed
  have C: "1 / 2 * (2::rat) powi ?e = 2 powi (flog2 x - 53)"
  proof -
    have "(2::rat) powi (?e + (- 1)) = 2 powi ?e * 2 powi (- 1)"
      by (rule power_int_add) simp
    moreover have "?e + (- 1) = flog2 x - 53"
      by simp
    ultimately have "(2::rat) powi (flog2 x - 53) = 2 powi ?e * 2 powi (- 1)"
      by simp
    then show ?thesis
      by (simp add: power_int_minus)
  qed
  show "\<bar>round_double x - x\<bar> \<le> 2 powi (flog2 x - 53)"
    using A unfolding B C rd .
  have sh: "(2::rat) powi (k + (- ?e)) = 2 powi k * 2 powi (- ?e)" for k
    by (rule power_int_add) simp
  have L2: "(2::rat) powi (flog2 x) * 2 powi (- ?e) = 2 ^ 52"
  proof -
    have "flog2 x + (- ?e) = 52" by simp
    with sh [of "flog2 x"] show ?thesis by simp
  qed
  have H2: "(2::rat) powi (flog2 x + 1) * 2 powi (- ?e) = 2 ^ 53"
  proof -
    have "flog2 x + 1 + (- ?e) = 53" by simp
    with sh [of "flog2 x + 1"] show ?thesis by simp
  qed
  have L1: "2 powi (flog2 x) * 2 powi (- ?e) \<le> ?s"
    using flog2_bounds(1) [OF assms] by (intro mult_right_mono) simp_all
  have s_lo: "2 ^ 52 \<le> ?s"
    using L1 unfolding L2 .
  have H1: "?s < 2 powi (flog2 x + 1) * 2 powi (- ?e)"
    using flog2_bounds(2) [OF assms] by (intro mult_strict_right_mono) simp_all
  have s_hi: "?s < 2 ^ 53"
    using H1 unfolding H2 .
  have fl: "2 ^ 52 \<le> \<lfloor>?s\<rfloor>" "\<lfloor>?s\<rfloor> < 2 ^ 53"
    using s_lo s_hi by (simp_all add: le_floor_iff floor_less_iff)
  have "\<lfloor>?s\<rfloor> \<le> ?m" "?m \<le> \<lfloor>?s\<rfloor> + 1"
    by (simp_all add: round_half_even_def Let_def)
  then have "2 ^ 52 \<le> ?m \<and> ?m \<le> 2 ^ 53"
    using fl by linarith
  then show "\<exists>m. round_double x = of_int m * 2 powi (flog2 x - 52) \<and> 2 ^ 52 \<le> m \<and> m \<le> 2 ^ 53"
    using rd by blast
qed

lemma double_literals_nearest:
  "\<bar>WR - 299 / 1000\<bar> \<le> 1 / 2 ^ 55" "\<bar>WG - 587 / 1000\<bar> \<le> 1 / 2 ^ 54" "\<bar>WB - 114 / 1000\<bar> \<le> 1 / 2 ^ 57"
  unfolding double_literals by simp_all

end
